theory Spec2Isabelle
  imports Main "HOL-Library.Sublist"
begin

section \<open>Book layout editor: data model\<close>

text \<open>
  The program is one Python file, \<^verbatim>\<open>book_layout_view.py\<close>. Its classes \<^verbatim>\<open>PageWidget\<close>,
  \<^verbatim>\<open>SpreadWidget\<close> and \<^verbatim>\<open>BookLayoutApp\<close> become records holding the attributes the
  methods read and write. A method that mutates \<^verbatim>\<open>self\<close> becomes a function returning
  the updated record. Every spread owns its two pages and no page is shared, so a
  spread holds its pages by value; the field \<open>pid\<close> stands for the identity of the
  page object, which is what \<^verbatim>\<open>==\<close> compares in \<^verbatim>\<open>find_spread_and_page\<close> and
  \<^verbatim>\<open>get_page_index\<close>.

  What the program asks of its surroundings is a parameter: the record \<open>env\<close> gives the
  answer of \<^verbatim>\<open>os.path.exists\<close>, the height of the pixmap that \<^verbatim>\<open>QPixmap(path)\<close>
  decodes (0 for the null pixmap of a missing or undecodable file) and the three
  floating-point products \<^verbatim>\<open>int(w * 1.414)\<close>, \<^verbatim>\<open>int(w * 1.3)\<close>, \<^verbatim>\<open>int(w * 0.7)\<close>.
  Dialog answers, chosen file names and the outcome of reading or writing a file are
  arguments of the operation that asks for them. Calls into the widget toolkit that
  only draw (layouts, \<^verbatim>\<open>setFixedSize\<close>, \<^verbatim>\<open>setPixmap\<close>, \<^verbatim>\<open>setText\<close>) are left out.
  One of them can fail: \<^verbatim>\<open>setFixedSize\<close> raises \<^verbatim>\<open>OverflowError\<close> when the width or the
  height of a page is outside the range of a C int. The model has no such exception,
  so its constructors always return; \<open>size_fits\<close> below names the widths for which the
  real ones do, and the general facts about a load that builds spreads assume it.

  An exception is a value: an operation returns the state it has reached together
  with \<open>Some e\<close> when it raised \<open>e\<close> there, so that the mutations done before the raise
  stay visible, as they do in Python.
\<close>

datatype exn = ZeroDivisionError | OSError | UnicodeError | JSONDecodeError

type_synonym 'a res = "'a \<times> exn option"

record env =
  path_exists :: "string \<Rightarrow> bool"
  pixmap_height :: "string \<Rightarrow> int"
  float_height :: "int \<Rightarrow> int"
  float_zoom_in :: "int \<Rightarrow> int"
  float_zoom_out :: "int \<Rightarrow> int"

record page =
  pid :: nat
  page_number :: int
  number_visible :: bool
  image_path :: string
  page_width :: int
  height :: int

record spread =
  left_page :: page
  right_page :: page

record app =
  current_page_width :: int
  spreads :: "spread list"
  page_number_start :: int
  show_page_numbers :: bool
  next_id :: nat

text \<open>Sequencing: the second step runs only when the first one did not raise.\<close>

definition and_then :: "'a res \<Rightarrow> ('a \<Rightarrow> 'a res) \<Rightarrow> 'a res" where
  "and_then r f = (case snd r of None \<Rightarrow> f (fst r) | Some e \<Rightarrow> r)"

definition returns :: "'a \<Rightarrow> 'a res" where
  "returns x = (x, None)"

subsection \<open>PageWidget\<close>

text \<open>
  \<^verbatim>\<open>load_image\<close> stores the path first. For a non-empty path it then divides
  \<^verbatim>\<open>self.page_width / self.height\<close> and \<^verbatim>\<open>pixmap.width() / pixmap.height()\<close>; either
  division raises \<^verbatim>\<open>ZeroDivisionError\<close> on a zero divisor. The later divisions of the
  method have a positive divisor whenever these two succeeded.
\<close>

definition load_image :: "env \<Rightarrow> string \<Rightarrow> page \<Rightarrow> page res" where
  "load_image ev path pg =
     (let pg1 = pg\<lparr>image_path := path\<rparr>
      in if path \<noteq> [] then
           (if height pg1 = 0 then (pg1, Some ZeroDivisionError)
            else if pixmap_height ev path = 0 then (pg1, Some ZeroDivisionError)
            else (pg1, None))
         else (pg1\<lparr>image_path := []\<rparr>, None))"

definition update_size :: "env \<Rightarrow> page \<Rightarrow> page res" where
  "update_size ev pg =
     (let pg1 = pg\<lparr>height := float_height ev (page_width pg)\<rparr>
      in if image_path pg1 \<noteq> [] then load_image ev (image_path pg1) pg1
         else (pg1, None))"

definition update_page_number :: "int \<Rightarrow> bool \<Rightarrow> page \<Rightarrow> page" where
  "update_page_number number visible pg =
     pg\<lparr>page_number := number, number_visible := visible\<rparr>"

text \<open>
  The constructor: the image path is empty when \<^verbatim>\<open>update_size\<close> runs, so it only
  computes the height; \<^verbatim>\<open>update_page_number\<close> is called with its default
  \<^verbatim>\<open>visible=True\<close>. The first argument is the identity of the new object.
\<close>

definition PageWidget :: "env \<Rightarrow> nat \<Rightarrow> int \<Rightarrow> int \<Rightarrow> page" where
  "PageWidget ev i w number =
     update_page_number number True
       (fst (update_size ev
          \<lparr>pid = i, page_number = number, number_visible = True, image_path = [],
           page_width = w, height = 0\<rparr>))"

subsection \<open>SpreadWidget\<close>

definition SpreadWidget :: "env \<Rightarrow> nat \<Rightarrow> int \<Rightarrow> int \<Rightarrow> spread" where
  "SpreadWidget ev i w start_number =
     \<lparr>left_page = PageWidget ev i w start_number,
      right_page = PageWidget ev (i + 1) w (start_number + 1)\<rparr>"

definition update_page_numbers :: "int \<Rightarrow> bool \<Rightarrow> spread \<Rightarrow> spread" where
  "update_page_numbers start_number visible sp =
     sp\<lparr>left_page := update_page_number start_number visible (left_page sp),
        right_page := update_page_number (start_number + 1) visible (right_page sp)\<rparr>"

definition get_page_index :: "spread \<Rightarrow> nat \<Rightarrow> int" where
  "get_page_index sp p =
     (if p = pid (left_page sp) then 0
      else if p = pid (right_page sp) then 1
      else - 1)"

subsection \<open>BookLayoutApp: page numbers and lookup\<close>

definition update_all_page_numbers :: "app \<Rightarrow> app" where
  "update_all_page_numbers st =
     st\<lparr>spreads :=
          map (\<lambda>(i, sp). update_page_numbers (page_number_start st + int i * 2)
                           (show_page_numbers st) sp)
              (enumerate 0 (spreads st))\<rparr>"

text \<open>
  \<^verbatim>\<open>find_spread_and_page\<close> returns the first spread one of whose pages is the target;
  Python's \<^verbatim>\<open>(-1, None)\<close> is \<open>None\<close> here.
\<close>

fun find_from :: "nat \<Rightarrow> spread list \<Rightarrow> nat \<Rightarrow> (nat \<times> spread) option" where
  "find_from i [] p = None"
| "find_from i (sp # sps) p =
     (if p \<in> set [pid (left_page sp), pid (right_page sp)] then Some (i, sp)
      else find_from (Suc i) sps p)"

definition find_spread_and_page :: "app \<Rightarrow> nat \<Rightarrow> (nat \<times> spread) option" where
  "find_spread_and_page st p = find_from 0 (spreads st) p"

subsection \<open>BookLayoutApp: construction and settings\<close>

definition add_new_spread :: "env \<Rightarrow> app \<Rightarrow> app" where
  "add_new_spread ev st =
     (let start_number = page_number_start st + int (length (spreads st)) * 2;
          sp = SpreadWidget ev (next_id st) (current_page_width st) start_number;
          sp1 = update_page_numbers start_number (show_page_numbers st) sp
      in st\<lparr>spreads := spreads st @ [sp1], next_id := next_id st + 2\<rparr>)"

text \<open>The state \<^verbatim>\<open>BookLayoutApp.__init__\<close> leaves behind.\<close>

definition initial_app :: "env \<Rightarrow> app" where
  "initial_app ev =
     add_new_spread ev
       \<lparr>current_page_width = 300, spreads = [], page_number_start = 1,
        show_page_numbers = True, next_id = 0\<rparr>"

definition toggle_page_numbers :: "bool \<Rightarrow> app \<Rightarrow> app" where
  "toggle_page_numbers checked st = update_all_page_numbers (st\<lparr>show_page_numbers := checked\<rparr>)"

text \<open>\<^verbatim>\<open>QInputDialog.getInt\<close> answers a number and whether the dialog was accepted.\<close>

definition set_start_page_number :: "int \<Rightarrow> bool \<Rightarrow> app \<Rightarrow> app" where
  "set_start_page_number number ok st =
     (if ok then update_all_page_numbers (st\<lparr>page_number_start := number\<rparr>) else st)"

subsection \<open>Pages inside the book\<close>

text \<open>
  A page of the book is reached through the index of its spread and its slot. The
  methods below call \<^verbatim>\<open>load_image\<close> on such a page; the mutated page is written back
  even when the call raised.
\<close>

datatype slot = LeftSlot | RightSlot

definition page_of :: "spread \<Rightarrow> slot \<Rightarrow> page" where
  "page_of sp s = (case s of LeftSlot \<Rightarrow> left_page sp | RightSlot \<Rightarrow> right_page sp)"

definition put_page :: "spread \<Rightarrow> slot \<Rightarrow> page \<Rightarrow> spread" where
  "put_page sp s pg =
     (case s of LeftSlot \<Rightarrow> sp\<lparr>left_page := pg\<rparr> | RightSlot \<Rightarrow> sp\<lparr>right_page := pg\<rparr>)"

definition page_at :: "app \<Rightarrow> nat \<Rightarrow> slot \<Rightarrow> page" where
  "page_at st i s = page_of (spreads st ! i) s"

definition spread_load_image :: "env \<Rightarrow> slot \<Rightarrow> string \<Rightarrow> spread \<Rightarrow> spread res" where
  "spread_load_image ev s path sp =
     (let r = load_image ev path (page_of sp s) in (put_page sp s (fst r), snd r))"

definition load_image_at :: "env \<Rightarrow> nat \<Rightarrow> slot \<Rightarrow> string \<Rightarrow> app \<Rightarrow> app res" where
  "load_image_at ev i s path st =
     (let r = spread_load_image ev s path (spreads st ! i)
      in (st\<lparr>spreads := (spreads st)[i := fst r]\<rparr>, snd r))"

text \<open>
  \<^verbatim>\<open>load_image_from_dialog\<close> is a method of the page the context menu was opened on;
  the file name is what the file dialog answered, empty when it was cancelled.
\<close>

definition load_image_from_dialog :: "env \<Rightarrow> string \<Rightarrow> nat \<Rightarrow> app \<Rightarrow> app res" where
  "load_image_from_dialog ev file_name p st =
     (case find_spread_and_page st p of
        None \<Rightarrow> (st, None)
      | Some (spread_idx, sp) \<Rightarrow>
          if file_name \<noteq> [] then
            load_image_at ev spread_idx
              (if get_page_index sp p = 0 then LeftSlot else RightSlot) file_name st
          else (st, None))"

subsection \<open>Swapping\<close>

definition swap_pages :: "env \<Rightarrow> nat \<Rightarrow> slot \<Rightarrow> nat \<Rightarrow> slot \<Rightarrow> app \<Rightarrow> app res" where
  "swap_pages ev i1 s1 i2 s2 st =
     (let temp_path = image_path (page_at st i1 s1);
          path2 = image_path (page_at st i2 s2)
      in and_then
           (if path2 \<noteq> [] then load_image_at ev i1 s1 path2 st
            else load_image_at ev i1 s1 [] st)
           (\<lambda>st1. if temp_path \<noteq> [] then load_image_at ev i2 s2 temp_path st1
                   else load_image_at ev i2 s2 [] st1))"

definition swap_with_prev_page :: "env \<Rightarrow> nat \<Rightarrow> app \<Rightarrow> app res" where
  "swap_with_prev_page ev current_page st =
     (case find_spread_and_page st current_page of
        None \<Rightarrow> (st, None)
      | Some (spread_idx, sp) \<Rightarrow>
          (let page_idx = get_page_index sp current_page
           in and_then
                (if page_idx = 0 \<and> spread_idx > 0 then
                   swap_pages ev spread_idx LeftSlot (spread_idx - 1) RightSlot st
                 else if page_idx = 1 then
                   swap_pages ev spread_idx RightSlot spread_idx LeftSlot st
                 else (st, None))
                (\<lambda>st1. (update_all_page_numbers st1, None))))"

definition swap_with_next_page :: "env \<Rightarrow> nat \<Rightarrow> app \<Rightarrow> app res" where
  "swap_with_next_page ev current_page st =
     (case find_spread_and_page st current_page of
        None \<Rightarrow> (st, None)
      | Some (spread_idx, sp) \<Rightarrow>
          (let page_idx = get_page_index sp current_page
           in and_then
                (if page_idx = 0 then
                   swap_pages ev spread_idx LeftSlot spread_idx RightSlot st
                 else if page_idx = 1 \<and> int spread_idx < int (length (spreads st)) - 1 then
                   swap_pages ev spread_idx RightSlot (spread_idx + 1) LeftSlot st
                 else (st, None))
                (\<lambda>st1. (update_all_page_numbers st1, None))))"

subsection \<open>Inserting\<close>

text \<open>\<^verbatim>\<open>list.insert(i, x)\<close> for \<open>0 \<le> i \<le> len\<close>, and \<^verbatim>\<open>list.pop(i)\<close> for \<open>0 \<le> i < len\<close>.\<close>

definition list_insert :: "nat \<Rightarrow> 'a \<Rightarrow> 'a list \<Rightarrow> 'a list" where
  "list_insert i x xs = take i xs @ x # drop i xs"

definition list_pop :: "nat \<Rightarrow> 'a list \<Rightarrow> 'a list" where
  "list_pop i xs = take i xs @ drop (Suc i) xs"

text \<open>
  The new spread is a local object until it is spliced into the list: when a
  \<^verbatim>\<open>load_image\<close> on one of its pages raises, it is lost, and only the identities it
  used stay consumed. \<^verbatim>\<open>SpreadWidget(self.current_page_width)\<close> takes the default
  \<^verbatim>\<open>start_number=1\<close>.
\<close>

definition insert_new_page_before :: "env \<Rightarrow> nat \<Rightarrow> app \<Rightarrow> app res" where
  "insert_new_page_before ev current_page st =
     (case find_spread_and_page st current_page of
        None \<Rightarrow> (st, None)
      | Some (spread_idx, sp) \<Rightarrow>
          (let page_idx = get_page_index sp current_page;
               new_spread = SpreadWidget ev (next_id st) (current_page_width st) 1;
               st0 = st\<lparr>next_id := next_id st + 2\<rparr>
           in and_then
                (if page_idx = 0 then
                   (if spread_idx > 0 then
                      (let prev_spread = spreads st ! (spread_idx - 1)
                       in case and_then
                                 (spread_load_image ev LeftSlot
                                    (image_path (right_page prev_spread)) new_spread)
                                 (spread_load_image ev RightSlot
                                    (image_path (left_page sp)))
                          of (ns, Some e) \<Rightarrow> (st0, Some e)
                           | (ns, None) \<Rightarrow>
                               and_then
                                 (and_then
                                    (and_then
                                       (load_image_at ev spread_idx LeftSlot
                                          (image_path (right_page sp)) st0)
                                       (load_image_at ev (spread_idx - 1) RightSlot []))
                                    (load_image_at ev spread_idx RightSlot []))
                                 (\<lambda>st1. (st1\<lparr>spreads :=
                                            list_insert spread_idx ns (spreads st1)\<rparr>, None)))
                    else
                      (case and_then
                              (spread_load_image ev LeftSlot
                                 (image_path (left_page sp)) new_spread)
                              (spread_load_image ev RightSlot
                                 (image_path (right_page sp)))
                       of (ns, Some e) \<Rightarrow> (st0, Some e)
                        | (ns, None) \<Rightarrow>
                            (let temp_left_image = image_path (left_page sp)
                             in and_then
                                  (and_then
                                     (load_image_at ev spread_idx LeftSlot [] st0)
                                     (load_image_at ev spread_idx RightSlot temp_left_image))
                                  (\<lambda>st1. (st1\<lparr>spreads :=
                                             list_insert (spread_idx + 1) ns (spreads st1)\<rparr>,
                                           None)))))
                 else if page_idx = 1 then
                   (case spread_load_image ev LeftSlot (image_path (right_page sp)) new_spread
                    of (ns, Some e) \<Rightarrow> (st0, Some e)
                     | (ns, None) \<Rightarrow>
                         and_then
                           (load_image_at ev spread_idx RightSlot [] st0)
                           (\<lambda>st1. (st1\<lparr>spreads :=
                                      list_insert (spread_idx + 1) ns (spreads st1)\<rparr>, None)))
                 else (st, None))
                (\<lambda>st1. (update_all_page_numbers st1, None))))"

definition insert_new_page_after :: "env \<Rightarrow> nat \<Rightarrow> app \<Rightarrow> app res" where
  "insert_new_page_after ev current_page st =
     (case find_spread_and_page st current_page of
        None \<Rightarrow> (st, None)
      | Some (spread_idx, sp) \<Rightarrow>
          (let page_idx = get_page_index sp current_page;
               new_spread = SpreadWidget ev (next_id st) (current_page_width st) 1;
               st0 = st\<lparr>next_id := next_id st + 2\<rparr>
           in and_then
                (if page_idx = 0 then
                   (case spread_load_image ev LeftSlot (image_path (right_page sp)) new_spread
                    of (ns, Some e) \<Rightarrow> (st0, Some e)
                     | (ns, None) \<Rightarrow>
                         and_then
                           (load_image_at ev spread_idx RightSlot [] st0)
                           (\<lambda>st1. (st1\<lparr>spreads :=
                                      list_insert (spread_idx + 1) ns (spreads st1)\<rparr>, None)))
                 else if page_idx = 1 then
                   (if int spread_idx < int (length (spreads st)) - 1 then
                      (let next_spread = spreads st ! (spread_idx + 1)
                       in case spread_load_image ev RightSlot
                                 (image_path (left_page next_spread)) new_spread
                          of (ns, Some e) \<Rightarrow> (st0, Some e)
                           | (ns, None) \<Rightarrow>
                               and_then
                                 (and_then
                                    (load_image_at ev (spread_idx + 1) LeftSlot
                                       (image_path (right_page next_spread)) st0)
                                    (load_image_at ev (spread_idx + 1) RightSlot []))
                                 (\<lambda>st1. (st1\<lparr>spreads :=
                                            list_insert (spread_idx + 1) ns (spreads st1)\<rparr>,
                                          None)))
                    else (st0\<lparr>spreads := spreads st0 @ [new_spread]\<rparr>, None))
                 else (st, None))
                (\<lambda>st1. (update_all_page_numbers st1, None))))"

subsection \<open>Deleting\<close>

datatype button = Yes | No

definition delete_page :: "env \<Rightarrow> button \<Rightarrow> nat \<Rightarrow> app \<Rightarrow> app res" where
  "delete_page ev reply current_page st =
     (case find_spread_and_page st current_page of
        None \<Rightarrow> (st, None)
      | Some (spread_idx, sp) \<Rightarrow>
          (let page_idx = get_page_index sp current_page
           in if reply = Yes then
                and_then
                  (if page_idx = 0 then
                     (if spread_idx > 0 then
                        and_then
                          (load_image_at ev spread_idx LeftSlot (image_path (right_page sp)) st)
                          (load_image_at ev spread_idx RightSlot [])
                      else load_image_at ev spread_idx LeftSlot [] st)
                   else if page_idx = 1 then
                     (if int spread_idx < int (length (spreads st)) - 1 then
                        load_image_at ev spread_idx RightSlot [] st
                      else load_image_at ev spread_idx RightSlot [] st)
                   else (st, None))
                  (\<lambda>st1.
                     (let sp1 = spreads st1 ! spread_idx;
                          st2 = (if image_path (left_page sp1) = []
                                    \<and> image_path (right_page sp1) = [] then
                                   (if length (spreads st1) > 1 then
                                      st1\<lparr>spreads := list_pop spread_idx (spreads st1)\<rparr>
                                    else st1)
                                 else st1)
                      in (update_all_page_numbers st2, None)))
              else (st, None)))"

subsection \<open>Zoom\<close>

definition update_page_size :: "env \<Rightarrow> int \<Rightarrow> spread \<Rightarrow> spread res" where
  "update_page_size ev width sp =
     (let sp1 = sp\<lparr>left_page := (left_page sp)\<lparr>page_width := width\<rparr>,
                    right_page := (right_page sp)\<lparr>page_width := width\<rparr>\<rparr>;
          l = update_size ev (left_page sp1)
      in case snd l of
           Some e \<Rightarrow> (sp1\<lparr>left_page := fst l\<rparr>, Some e)
         | None \<Rightarrow>
             (let r = update_size ev (right_page sp1)
              in (sp1\<lparr>left_page := fst l, right_page := fst r\<rparr>, snd r)))"

fun update_sizes_loop :: "env \<Rightarrow> int \<Rightarrow> spread list \<Rightarrow> spread list res" where
  "update_sizes_loop ev width [] = ([], None)"
| "update_sizes_loop ev width (sp # sps) =
     (case update_page_size ev width sp of
        (sp1, Some e) \<Rightarrow> (sp1 # sps, Some e)
      | (sp1, None) \<Rightarrow>
          (case update_sizes_loop ev width sps of (sps1, r) \<Rightarrow> (sp1 # sps1, r)))"

definition update_all_page_sizes :: "env \<Rightarrow> app \<Rightarrow> app res" where
  "update_all_page_sizes ev st =
     (let r = update_sizes_loop ev (current_page_width st) (spreads st)
      in (st\<lparr>spreads := fst r\<rparr>, snd r))"

definition zoom_in :: "env \<Rightarrow> app \<Rightarrow> app res" where
  "zoom_in ev st =
     (if current_page_width st < 1000 then
        update_all_page_sizes ev
          (st\<lparr>current_page_width := min 1000 (float_zoom_in ev (current_page_width st))\<rparr>)
      else (st, None))"

definition zoom_out :: "env \<Rightarrow> app \<Rightarrow> app res" where
  "zoom_out ev st =
     (if current_page_width st > 200 then
        update_all_page_sizes ev
          (st\<lparr>current_page_width := max 200 (float_zoom_out ev (current_page_width st))\<rparr>)
      else (st, None))"

subsection \<open>New book\<close>

definition new_book :: "env \<Rightarrow> button \<Rightarrow> app \<Rightarrow> app" where
  "new_book ev reply st =
     (if reply = Yes then
        add_new_spread ev
          (st\<lparr>spreads := [], current_page_width := 300, page_number_start := 1,
              show_page_numbers := True\<rparr>)
      else st)"

subsection \<open>The book file\<close>

text \<open>
  The document is the dictionary \<^verbatim>\<open>book_data\<close>, which \<^verbatim>\<open>json.dump\<close> writes and
  \<^verbatim>\<open>json.load\<close> gives back. Each of its dictionaries is a record with one field per
  key the program looks up; a field is \<open>None\<close> when the key is absent, which is the
  case \<^verbatim>\<open>dict.get\<close> answers with its default. Values carry the types \<^verbatim>\<open>save_book\<close>
  writes (integers, a boolean, strings); documents holding values of other JSON
  types are outside this model.
\<close>

record page_doc =
  image_path_key :: "string option"

record spread_doc =
  left_page_key :: "page_doc option"
  right_page_key :: "page_doc option"

record settings_doc =
  page_width_key :: "int option"
  page_number_start_key :: "int option"
  show_page_numbers_key :: "bool option"

record book_doc =
  settings_key :: "settings_doc option"
  spreads_key :: "spread_doc list option"

definition spread_data :: "spread \<Rightarrow> spread_doc" where
  "spread_data sp =
     \<lparr>left_page_key = Some \<lparr>image_path_key = Some (image_path (left_page sp))\<rparr>,
      right_page_key = Some \<lparr>image_path_key = Some (image_path (right_page sp))\<rparr>\<rparr>"

definition book_data :: "app \<Rightarrow> book_doc" where
  "book_data st =
     \<lparr>settings_key = Some
        \<lparr>page_width_key = Some (current_page_width st),
         page_number_start_key = Some (page_number_start st),
         show_page_numbers_key = Some (show_page_numbers st)\<rparr>,
      spreads_key = Some (map spread_data (spreads st))\<rparr>"

text \<open>
  A critical message box, with the operation it reports on and the exception whose
  text it shows.
\<close>

datatype box = SaveErrorBox exn | LoadErrorBox exn

record save_effects =
  written :: "(string \<times> book_doc) option"
  save_shown :: "box option"

text \<open>
  \<^verbatim>\<open>save_book\<close>: \<open>file_name\<close> is the answer of the save dialog (empty when cancelled),
  \<open>wr\<close> is what opening the file and \<^verbatim>\<open>json.dump\<close> do: \<open>None\<close> when the document
  is written, \<open>Some e\<close> when they raise \<open>e\<close>. The result holds the effects and the
  exception that leaves \<^verbatim>\<open>save_book\<close>, if any. The book itself is not touched.
\<close>

definition save_book :: "string \<Rightarrow> exn option \<Rightarrow> app \<Rightarrow> save_effects res" where
  "save_book file_name wr st =
     (let data = book_data st
      in if file_name \<noteq> [] then
           (let file_name1 = (if \<not> suffix ''.book.json'' file_name
                              then file_name @ ''.book.json'' else file_name);
                body = (case wr of
                          None \<Rightarrow> (\<lparr>written = Some (file_name1, data), save_shown = None\<rparr>, None)
                        | Some e \<Rightarrow> (\<lparr>written = None, save_shown = None\<rparr>, Some e))
            in case body of
                 (eff, None) \<Rightarrow> (eff, None)
               | (eff, Some e) \<Rightarrow> (eff\<lparr>save_shown := Some (SaveErrorBox e)\<rparr>, None))
         else (\<lparr>written = None, save_shown = None\<rparr>, None))"

text \<open>One pass of the loop over \<^verbatim>\<open>book_data.get("spreads", [])\<close>, up to the append.\<close>

definition doc_image_path :: "page_doc option \<Rightarrow> string" where
  "doc_image_path d =
     (case (case d of None \<Rightarrow> \<lparr>image_path_key = None\<rparr> | Some pd \<Rightarrow> pd) of pd \<Rightarrow>
        (case image_path_key pd of None \<Rightarrow> [] | Some path \<Rightarrow> path))"

definition load_spread_data :: "env \<Rightarrow> spread_doc \<Rightarrow> spread \<Rightarrow> spread res" where
  "load_spread_data ev d sp =
     (let left_image_path = doc_image_path (left_page_key d);
          right_image_path = doc_image_path (right_page_key d)
      in and_then
           (if left_image_path \<noteq> [] \<and> path_exists ev left_image_path then
              spread_load_image ev LeftSlot left_image_path sp
            else (sp, None))
           (\<lambda>sp1. if right_image_path \<noteq> [] \<and> path_exists ev right_image_path then
                     spread_load_image ev RightSlot right_image_path sp1
                   else (sp1, None)))"

fun load_spreads :: "env \<Rightarrow> spread_doc list \<Rightarrow> app \<Rightarrow> app res" where
  "load_spreads ev [] st = (st, None)"
| "load_spreads ev (d # ds) st =
     (let sp = SpreadWidget ev (next_id st) (current_page_width st) 1;
          st0 = st\<lparr>next_id := next_id st + 2\<rparr>
      in case load_spread_data ev d sp of
           (sp1, Some e) \<Rightarrow> (st0, Some e)
         | (sp1, None) \<Rightarrow> load_spreads ev ds (st0\<lparr>spreads := spreads st0 @ [sp1]\<rparr>))"

text \<open>
  The body of the \<^verbatim>\<open>try\<close> block of \<^verbatim>\<open>load_book\<close>: \<open>rd\<close> is what opening the file and
  \<^verbatim>\<open>json.load\<close> do, either raising or answering the document.
\<close>

definition load_book_body :: "env \<Rightarrow> exn + book_doc \<Rightarrow> app \<Rightarrow> app res" where
  "load_book_body ev rd st =
     (case rd of
        Inl e \<Rightarrow> (st, Some e)
      | Inr data \<Rightarrow>
          (let st1 = st\<lparr>spreads := []\<rparr>;
               settings = (case settings_key data of
                             None \<Rightarrow> \<lparr>page_width_key = None, page_number_start_key = None,
                                      show_page_numbers_key = None\<rparr>
                           | Some s \<Rightarrow> s);
               st2 = st1\<lparr>current_page_width :=
                           (case page_width_key settings of None \<Rightarrow> 300 | Some w \<Rightarrow> w),
                         page_number_start :=
                           (case page_number_start_key settings of None \<Rightarrow> 1 | Some n \<Rightarrow> n),
                         show_page_numbers :=
                           (case show_page_numbers_key settings of None \<Rightarrow> True | Some b \<Rightarrow> b)\<rparr>
           in and_then
                (load_spreads ev (case spreads_key data of None \<Rightarrow> [] | Some ds \<Rightarrow> ds) st2)
                (\<lambda>st3. (update_all_page_numbers st3, None))))"

record load_effects =
  loaded :: app
  load_shown :: "box option"

text \<open>
  \<^verbatim>\<open>load_book\<close>: \<open>reply\<close> is the answer to the confirmation, asked only when the book
  has spreads; \<open>file_name\<close> is the answer of the open dialog. The result holds the
  book afterwards, the message box shown, and the exception that leaves
  \<^verbatim>\<open>load_book\<close>, if any.
\<close>

definition load_book :: "env \<Rightarrow> button \<Rightarrow> string \<Rightarrow> exn + book_doc \<Rightarrow> app \<Rightarrow> load_effects res" where
  "load_book ev reply file_name rd st =
     (if spreads st \<noteq> [] \<and> reply = No then (\<lparr>loaded = st, load_shown = None\<rparr>, None)
      else if file_name \<noteq> [] then
        (case load_book_body ev rd st of
           (st1, None) \<Rightarrow> (\<lparr>loaded = st1, load_shown = None\<rparr>, None)
         | (st1, Some e) \<Rightarrow> (\<lparr>loaded = st1, load_shown = Some (LoadErrorBox e)\<rparr>, None))
      else (\<lparr>loaded = st, load_shown = None\<rparr>, None))"

subsection \<open>The operations of the application\<close>

datatype action =
    AddNewSpread
  | TogglePageNumbers bool
  | SetStartPageNumber int bool
  | SwapWithPrev nat
  | SwapWithNext nat
  | InsertBefore nat
  | InsertAfter nat
  | DeletePage button nat
  | LoadImageFromDialog string nat
  | ZoomIn
  | ZoomOut
  | NewBook button
  | SaveBook string "exn option"
  | LoadBook button string "exn + book_doc"

text \<open>The book after an operation, whether it returned or raised.\<close>

fun step :: "env \<Rightarrow> action \<Rightarrow> app \<Rightarrow> app" where
  "step ev AddNewSpread st = add_new_spread ev st"
| "step ev (TogglePageNumbers checked) st = toggle_page_numbers checked st"
| "step ev (SetStartPageNumber number ok) st = set_start_page_number number ok st"
| "step ev (SwapWithPrev p) st = fst (swap_with_prev_page ev p st)"
| "step ev (SwapWithNext p) st = fst (swap_with_next_page ev p st)"
| "step ev (InsertBefore p) st = fst (insert_new_page_before ev p st)"
| "step ev (InsertAfter p) st = fst (insert_new_page_after ev p st)"
| "step ev (DeletePage reply p) st = fst (delete_page ev reply p st)"
| "step ev (LoadImageFromDialog file_name p) st = fst (load_image_from_dialog ev file_name p st)"
| "step ev ZoomIn st = fst (zoom_in ev st)"
| "step ev ZoomOut st = fst (zoom_out ev st)"
| "step ev (NewBook reply) st = new_book ev reply st"
| "step ev (SaveBook file_name wr) st = st"
| "step ev (LoadBook reply file_name rd) st = loaded (fst (load_book ev reply file_name rd st))"

subsection \<open>Concrete surroundings and books\<close>

text \<open>
  Python computes \<^verbatim>\<open>int(w * 1.414)\<close> in double precision: the integer \<open>w\<close> becomes the
  nearest double, the constant is the double nearest to 1.414, their exact product
  is rounded to the nearest double, and \<^verbatim>\<open>int\<close> truncates toward zero. Rounding is
  to 53 significant bits, ties to the even neighbour. The doubles nearest to 1.414,
  1.3 and 0.7 are \<open>6368089873101881 / 2 ^ 52\<close>, \<open>5854679515581645 / 2 ^ 52\<close> and
  \<open>3152519739159347 / 2 ^ 52\<close>. \<open>to_double n\<close> is the double nearest to the natural
  number \<open>n\<close>, and \<open>py_int_times w m k\<close> is \<^verbatim>\<open>int(w * c)\<close> for the double \<open>c = m / 2 ^ k\<close>,
  as long as \<open>w\<close> is in the range of a double (beyond it Python raises
  \<^verbatim>\<open>OverflowError\<close>).
\<close>

fun bit_length :: "nat \<Rightarrow> nat" where
  "bit_length n = (if n = 0 then 0 else Suc (bit_length (n div 2)))"

declare bit_length.simps [simp del]

definition round_half_even :: "nat \<Rightarrow> nat \<Rightarrow> nat" where
  "round_half_even n s =
     (let q = n div 2 ^ s; r = n mod 2 ^ s
      in if 2 ^ s < 2 * r then q + 1
         else if 2 * r = 2 ^ s \<and> odd q then q + 1
         else q)"

definition to_double :: "nat \<Rightarrow> nat" where
  "to_double n =
     (let b = bit_length n
      in if b \<le> 53 then n else round_half_even n (b - 53) * 2 ^ (b - 53))"

definition py_int_times :: "int \<Rightarrow> nat \<Rightarrow> nat \<Rightarrow> int" where
  "py_int_times w m k = sgn w * int (to_double (to_double (nat \<bar>w\<bar>) * m) div 2 ^ k)"

text \<open>
  An environment in which every file exists and decodes to a pixmap 100 pixels
  high, and one in which the file \<open>gone\<close> still exists but no longer decodes, so
  that \<^verbatim>\<open>QPixmap\<close> answers the null pixmap for it. The three products are the
  ones Python computes.
\<close>

definition good_env :: env where
  "good_env =
     \<lparr>path_exists = (\<lambda>_. True), pixmap_height = (\<lambda>_. 100),
      float_height = (\<lambda>w. py_int_times w 6368089873101881 52),
      float_zoom_in = (\<lambda>w. py_int_times w 5854679515581645 52),
      float_zoom_out = (\<lambda>w. py_int_times w 3152519739159347 52)\<rparr>"

definition broken_env :: "string \<Rightarrow> env" where
  "broken_env gone = good_env\<lparr>pixmap_height := (\<lambda>path. if path = gone then 0 else 100)\<rparr>"

definition mk_page :: "nat \<Rightarrow> int \<Rightarrow> string \<Rightarrow> page" where
  "mk_page i number path =
     \<lparr>pid = i, page_number = number, number_visible = True, image_path = path,
      page_width = 300, height = 424\<rparr>"

definition mk_spread :: "nat \<Rightarrow> int \<Rightarrow> string \<Rightarrow> string \<Rightarrow> spread" where
  "mk_spread i number l r =
     \<lparr>left_page = mk_page i number l, right_page = mk_page (i + 1) (number + 1) r\<rparr>"

definition mk_book :: "spread list \<Rightarrow> app" where
  "mk_book sps =
     \<lparr>current_page_width = 300, spreads = sps, page_number_start = 1,
      show_page_numbers = True, next_id = 2 * length sps\<rparr>"

text \<open>A book of two spreads holding the images a, b, c, d in reading order.\<close>

definition book_abcd :: app where
  "book_abcd = mk_book [mk_spread 0 1 ''a.png'' ''b.png'', mk_spread 2 3 ''c.png'' ''d.png'']"

text \<open>
  An environment in which the file \<open>gone\<close> does not exist, and a document whose only
  entry names the missing file \<^verbatim>\<open>lost.png\<close> for its left page.
\<close>

definition missing_env :: "string \<Rightarrow> env" where
  "missing_env gone = good_env\<lparr>path_exists := (\<lambda>path. path \<noteq> gone)\<rparr>"

definition lost_doc :: book_doc where
  "lost_doc =
     \<lparr>settings_key = None,
      spreads_key = Some
        [\<lparr>left_page_key = Some \<lparr>image_path_key = Some ''lost.png''\<rparr>,
          right_page_key = Some \<lparr>image_path_key = Some ''a.png''\<rparr>\<rparr>]\<rparr>"

text \<open>
  An environment in which \<open>gone\<close> does not exist and \<open>bad\<close> exists but does not
  decode, and a document whose only entry names \<^verbatim>\<open>lost.png\<close> for its left page and
  \<^verbatim>\<open>b.png\<close> for its right page.
\<close>

definition missing_broken_env :: "string \<Rightarrow> string \<Rightarrow> env" where
  "missing_broken_env gone bad = (broken_env bad)\<lparr>path_exists := (\<lambda>path. path \<noteq> gone)\<rparr>"

definition lost_and_broken_doc :: book_doc where
  "lost_and_broken_doc =
     \<lparr>settings_key = None,
      spreads_key = Some
        [\<lparr>left_page_key = Some \<lparr>image_path_key = Some ''lost.png''\<rparr>,
          right_page_key = Some \<lparr>image_path_key = Some ''b.png''\<rparr>\<rparr>]\<rparr>"

section \<open>Notions used in the statements\<close>

text \<open>
  These are not part of the program. \<open>load_raises\<close> says when \<^verbatim>\<open>load_image\<close> raises:
  the path is not empty and one of the two divisors is zero. \<open>set_slot_path\<close> and
  \<open>set_image_path\<close> name the spread and the book that a \<^verbatim>\<open>load_image\<close> call leaves
  behind. \<open>page_ids\<close> gives the identities of the two pages of a spread, and \<open>ids\<close>
  lists them for the spreads of the book, in order.
\<close>

definition load_raises :: "env \<Rightarrow> string \<Rightarrow> page \<Rightarrow> bool" where
  "load_raises ev path pg = (path \<noteq> [] \<and> (height pg = 0 \<or> pixmap_height ev path = 0))"

definition set_slot_path :: "slot \<Rightarrow> string \<Rightarrow> spread \<Rightarrow> spread" where
  "set_slot_path s path sp = put_page sp s ((page_of sp s)\<lparr>image_path := path\<rparr>)"

definition set_image_path :: "nat \<Rightarrow> slot \<Rightarrow> string \<Rightarrow> app \<Rightarrow> app" where
  "set_image_path i s path st =
     st\<lparr>spreads := (spreads st)[i := set_slot_path s path (spreads st ! i)]\<rparr>"

definition page_ids :: "spread \<Rightarrow> nat \<times> nat" where
  "page_ids sp = (pid (left_page sp), pid (right_page sp))"

definition ids :: "app \<Rightarrow> (nat \<times> nat) list" where
  "ids st = map page_ids (spreads st)"

fun is_load :: "action \<Rightarrow> bool" where
  "is_load (LoadBook reply file_name rd) = True"
| "is_load _ = False"

text \<open>
  \<open>image_paths\<close> lists the image paths of the book, one pair per spread. For a
  document, \<open>doc_entries\<close> and the three \<open>doc_\<close> settings are what the \<^verbatim>\<open>get\<close> calls of
  \<^verbatim>\<open>load_book\<close> answer, defaults included; \<open>doc_path\<close> is the image path an entry
  gives for a slot and \<open>clear_doc_path\<close> the entry with that path made empty.
  \<open>loaded_path\<close> is the path \<^verbatim>\<open>load_book\<close> tries to load for a slot (none for a
  missing file), and \<open>entry_raises\<close> says that one of the two \<^verbatim>\<open>load_image\<close> calls for
  an entry raises on a fresh page of width \<open>w\<close>.
\<close>

definition spread_paths :: "spread \<Rightarrow> string \<times> string" where
  "spread_paths sp = (image_path (left_page sp), image_path (right_page sp))"

definition image_paths :: "app \<Rightarrow> (string \<times> string) list" where
  "image_paths st = map spread_paths (spreads st)"

definition doc_path :: "spread_doc \<Rightarrow> slot \<Rightarrow> string" where
  "doc_path d s =
     doc_image_path (case s of LeftSlot \<Rightarrow> left_page_key d | RightSlot \<Rightarrow> right_page_key d)"

definition clear_doc_path :: "slot \<Rightarrow> spread_doc \<Rightarrow> spread_doc" where
  "clear_doc_path s d =
     (case s of
        LeftSlot \<Rightarrow> d\<lparr>left_page_key := Some \<lparr>image_path_key = Some []\<rparr>\<rparr>
      | RightSlot \<Rightarrow> d\<lparr>right_page_key := Some \<lparr>image_path_key = Some []\<rparr>\<rparr>)"

definition loaded_path :: "env \<Rightarrow> spread_doc \<Rightarrow> slot \<Rightarrow> string" where
  "loaded_path ev d s =
     (if doc_path d s \<noteq> [] \<and> path_exists ev (doc_path d s) then doc_path d s else [])"

definition loaded_paths :: "env \<Rightarrow> spread_doc \<Rightarrow> string \<times> string" where
  "loaded_paths ev d = (loaded_path ev d LeftSlot, loaded_path ev d RightSlot)"

definition slot_raises :: "env \<Rightarrow> int \<Rightarrow> spread_doc \<Rightarrow> slot \<Rightarrow> bool" where
  "slot_raises ev w d s =
     (doc_path d s \<noteq> [] \<and> path_exists ev (doc_path d s)
      \<and> (float_height ev w = 0 \<or> pixmap_height ev (doc_path d s) = 0))"

definition doc_entries :: "book_doc \<Rightarrow> spread_doc list" where
  "doc_entries data = (case spreads_key data of None \<Rightarrow> [] | Some ds \<Rightarrow> ds)"

definition doc_settings :: "book_doc \<Rightarrow> settings_doc" where
  "doc_settings data =
     (case settings_key data of
        None \<Rightarrow> \<lparr>page_width_key = None, page_number_start_key = None,
                 show_page_numbers_key = None\<rparr>
      | Some s \<Rightarrow> s)"

definition doc_page_width :: "book_doc \<Rightarrow> int" where
  "doc_page_width data = (case page_width_key (doc_settings data) of None \<Rightarrow> 300 | Some w \<Rightarrow> w)"

definition doc_page_number_start :: "book_doc \<Rightarrow> int" where
  "doc_page_number_start data =
     (case page_number_start_key (doc_settings data) of None \<Rightarrow> 1 | Some n \<Rightarrow> n)"

definition doc_show_page_numbers :: "book_doc \<Rightarrow> bool" where
  "doc_show_page_numbers data =
     (case show_page_numbers_key (doc_settings data) of None \<Rightarrow> True | Some b \<Rightarrow> b)"

definition entry_raises :: "env \<Rightarrow> int \<Rightarrow> spread_doc \<Rightarrow> bool" where
  "entry_raises ev w d = (slot_raises ev w d LeftSlot \<or> slot_raises ev w d RightSlot)"

text \<open>
  \<open>size_fits\<close> says that a page of width \<open>w\<close> and its height are in the range of a C
  int, so that \<^verbatim>\<open>setFixedSize\<close> accepts them.
\<close>

definition fits_c_int :: "int \<Rightarrow> bool" where
  "fits_c_int n = (- 2147483648 \<le> n \<and> n \<le> 2147483647)"

definition size_fits :: "env \<Rightarrow> int \<Rightarrow> bool" where
  "size_fits ev w = (fits_c_int w \<and> fits_c_int (float_height ev w))"

text \<open>
  On the list of path pairs, \<open>get_path\<close> reads the path of a slot, \<open>set_path\<close> writes
  it, and \<open>swap_paths\<close> exchanges the paths of two slots.
\<close>

definition get_path :: "(string \<times> string) list \<Rightarrow> nat \<Rightarrow> slot \<Rightarrow> string" where
  "get_path xs i s = (case s of LeftSlot \<Rightarrow> fst (xs ! i) | RightSlot \<Rightarrow> snd (xs ! i))"

definition set_path :: "nat \<Rightarrow> slot \<Rightarrow> string \<Rightarrow> (string \<times> string) list \<Rightarrow> (string \<times> string) list" where
  "set_path i s path xs =
     xs[i := (case s of LeftSlot \<Rightarrow> (path, snd (xs ! i)) | RightSlot \<Rightarrow> (fst (xs ! i), path))]"

definition swap_paths ::
  "nat \<Rightarrow> slot \<Rightarrow> nat \<Rightarrow> slot \<Rightarrow> (string \<times> string) list \<Rightarrow> (string \<times> string) list" where
  "swap_paths i1 s1 i2 s2 xs =
     set_path i2 s2 (get_path xs i1 s1) (set_path i1 s1 (get_path xs i2 s2) xs)"

section \<open>Basic facts\<close>

subsection \<open>Results as pairs\<close>

lemma load_image_eq:
  "load_image ev path pg =
     (pg\<lparr>image_path := path\<rparr>, if load_raises ev path pg then Some ZeroDivisionError else None)"
  by (simp add: load_image_def load_raises_def Let_def)

lemma spread_load_image_eq:
  "spread_load_image ev s path sp =
     (set_slot_path s path sp,
      if load_raises ev path (page_of sp s) then Some ZeroDivisionError else None)"
  by (simp add: spread_load_image_def load_image_eq set_slot_path_def Let_def)

lemma load_image_at_eq:
  "load_image_at ev i s path st =
     (set_image_path i s path st,
      if load_raises ev path (page_at st i s) then Some ZeroDivisionError else None)"
  by (simp add: load_image_at_def spread_load_image_eq set_image_path_def page_at_def Let_def)

lemma and_then_pair [simp]:
  "and_then (x, None) f = f x"
  "and_then (x, Some e) f = (x, Some e)"
  by (simp_all add: and_then_def)

lemma and_then_if [simp]:
  "and_then (if c then a else b) f = (if c then and_then a f else and_then b f)"
  by simp

lemma pair_if: "(x, if c then a else b) = (if c then (x, a) else (x, b))"
  by simp

lemma load_raises_simps [simp]:
  "load_raises ev path (pg\<lparr>image_path := x\<rparr>) = load_raises ev path pg"
  "\<not> load_raises ev [] pg"
  by (simp_all add: load_raises_def)

lemma page_of_set_slot_path [simp]:
  "page_of (set_slot_path s path sp) s' =
     (if s = s' then (page_of sp s)\<lparr>image_path := path\<rparr> else page_of sp s')"
  by (cases s; cases s') (simp_all add: page_of_def put_page_def set_slot_path_def)

lemma page_ids_set_slot_path [simp]: "page_ids (set_slot_path s path sp) = page_ids sp"
  by (cases s) (simp_all add: page_ids_def put_page_def page_of_def set_slot_path_def)

lemma map_list_update_same:
  assumes "f y = f (xs ! i)"
  shows "map f (xs[i := y]) = map f xs"
proof (cases "i < length xs")
  case True
  with assms show ?thesis by (simp add: map_update list_update_same_conv)
next
  case False
  then have "xs[i := y] = xs" by (intro list_update_beyond) simp
  then show ?thesis by simp
qed

lemma ids_set_image_path [simp]: "ids (set_image_path i s path st) = ids st"
  by (simp add: ids_def set_image_path_def map_list_update_same)

lemma fields_set_image_path [simp]:
  "next_id (set_image_path i s path st) = next_id st"
  "current_page_width (set_image_path i s path st) = current_page_width st"
  "page_number_start (set_image_path i s path st) = page_number_start st"
  "show_page_numbers (set_image_path i s path st) = show_page_numbers st"
  "length (spreads (set_image_path i s path st)) = length (spreads st)"
  by (simp_all add: set_image_path_def)

lemma set_image_path_next_id [simp]:
  "set_image_path i s path (st\<lparr>next_id := n\<rparr>) = (set_image_path i s path st)\<lparr>next_id := n\<rparr>"
  by (simp add: set_image_path_def)

lemma page_at_next_id [simp]: "page_at (st\<lparr>next_id := n\<rparr>) i s = page_at st i s"
  by (simp add: page_at_def)

lemma page_ids_update_page_numbers [simp]:
  "page_ids (update_page_numbers n v sp) = page_ids sp"
  by (simp add: page_ids_def update_page_numbers_def update_page_number_def)

lemma ids_update_all_page_numbers [simp]: "ids (update_all_page_numbers st) = ids st"
  by (auto simp add: ids_def update_all_page_numbers_def list_eq_iff_nth_eq nth_enumerate_eq)

lemma page_ids_SpreadWidget [simp]: "page_ids (SpreadWidget ev n w k) = (n, Suc n)"
  by (simp add: page_ids_def SpreadWidget_def PageWidget_def update_page_number_def
      update_size_def Let_def)

lemma map_list_insert: "map f (list_insert i x xs) = list_insert i (f x) (map f xs)"
  by (simp add: list_insert_def take_map drop_map)

lemma map_list_pop: "map f (list_pop i xs) = list_pop i (map f xs)"
  by (simp add: list_pop_def take_map drop_map)

lemma ids_simps [simp]:
  "ids (st\<lparr>next_id := n\<rparr>) = ids st"
  "ids (st\<lparr>spreads := sps\<rparr>) = map page_ids sps"
  "ids (st\<lparr>current_page_width := w\<rparr>) = ids st"
  "ids (st\<lparr>page_number_start := k\<rparr>) = ids st"
  "ids (st\<lparr>show_page_numbers := b\<rparr>) = ids st"
  by (simp_all add: ids_def)

lemma spreads_ids: "map page_ids (spreads st) = ids st"
  by (simp add: ids_def)

lemma find_from_Some:
  "find_from k sps p = Some (i, sp) \<Longrightarrow>
   k \<le> i \<and> i - k < length sps \<and> sp = sps ! (i - k)
   \<and> (p = pid (left_page sp) \<or> p = pid (right_page sp))"
proof (induction sps arbitrary: k)
  case Nil
  then show ?case by simp
next
  case (Cons a sps)
  show ?case
  proof (cases "p = pid (left_page a) \<or> p = pid (right_page a)")
    case True
    with Cons.prems show ?thesis by auto
  next
    case False
    with Cons.prems have "find_from (Suc k) sps p = Some (i, sp)" by simp
    from Cons.IH [OF this] show ?thesis
      by (auto simp: Suc_diff_le)
  qed
qed

lemma find_spread_and_page_Some:
  "find_spread_and_page st p = Some (i, sp) \<Longrightarrow>
   i < length (spreads st) \<and> sp = spreads st ! i
   \<and> (p = pid (left_page sp) \<or> p = pid (right_page sp))"
  unfolding find_spread_and_page_def by (drule find_from_Some) auto

lemma get_page_index_found:
  "find_spread_and_page st p = Some (i, sp) \<Longrightarrow> get_page_index sp p = 0 \<or> get_page_index sp p = 1"
  by (drule find_spread_and_page_Some) (auto simp: get_page_index_def)

lemmas op_simps = Let_def load_image_at_eq spread_load_image_eq

lemma ids_insert_new_page_before:
  assumes found: "find_spread_and_page st p = Some (i, sp)"
  shows "ids (fst (insert_new_page_before ev p st)) =
     (if snd (insert_new_page_before ev p st) = None then
        list_insert (if get_page_index sp p = 0 \<and> 0 < i then i else i + 1)
          (next_id st, Suc (next_id st)) (ids st)
      else ids st)"
proof -
  consider (inner) "get_page_index sp p = 0" "0 < i"
    | (first) "get_page_index sp p = 0" "i = 0"
    | (right) "get_page_index sp p = 1"
    using get_page_index_found [OF found] by auto
  then show ?thesis
  proof cases
    case inner
    with found show ?thesis
      by (simp add: insert_new_page_before_def op_simps map_list_insert spreads_ids)
  next
    case first
    with found show ?thesis
      by (simp add: insert_new_page_before_def op_simps map_list_insert spreads_ids)
  next
    case right
    with found show ?thesis
      by (simp add: insert_new_page_before_def op_simps map_list_insert spreads_ids)
  qed
qed


lemma ids_insert_new_page_after:
  assumes found: "find_spread_and_page st p = Some (i, sp)"
  shows "ids (fst (insert_new_page_after ev p st)) =
     (if snd (insert_new_page_after ev p st) = None then
        list_insert (i + 1) (next_id st, Suc (next_id st)) (ids st)
      else ids st)"
proof -
  have len: "i < length (spreads st)"
    using find_spread_and_page_Some [OF found] by simp
  consider (left) "get_page_index sp p = 0"
    | (inner) "get_page_index sp p = 1" "Suc i < length (spreads st)"
    | (last) "get_page_index sp p = 1" "Suc i = length (spreads st)"
    using get_page_index_found [OF found] len by linarith
  then show ?thesis
  proof cases
    case left
    with found show ?thesis
      by (simp add: insert_new_page_after_def op_simps map_list_insert spreads_ids)
  next
    case inner
    with found show ?thesis
      by (simp add: insert_new_page_after_def op_simps map_list_insert spreads_ids)
  next
    case last
    then have "length (ids st) = Suc i" by (simp add: ids_def)
    with last found show ?thesis
      by (simp add: insert_new_page_after_def op_simps map_list_insert spreads_ids
          list_insert_def)
  qed
qed

lemma insert_not_contained:
  "find_spread_and_page st p = None \<Longrightarrow> insert_new_page_before ev p st = (st, None)"
  "find_spread_and_page st p = None \<Longrightarrow> insert_new_page_after ev p st = (st, None)"
  by (simp_all add: insert_new_page_before_def insert_new_page_after_def)

lemma length_ids [simp]: "length (ids st) = length (spreads st)"
  by (simp add: ids_def)

lemma length_list_insert [simp]: "length (list_insert i x xs) = Suc (length xs)"
  by (simp add: list_insert_def)

lemma set_list_insert [simp]: "set (list_insert i x xs) = insert x (set xs)"
proof -
  have "set (take i xs) \<union> set (drop i xs) = set xs"
    by (metis append_take_drop_id set_append)
  then show ?thesis by (auto simp add: list_insert_def)
qed

lemma set_list_pop: "set (list_pop i xs) \<subseteq> set xs"
  by (auto simp add: list_pop_def dest: in_set_takeD in_set_dropD)

lemma length_list_pop [simp]: "i < length xs \<Longrightarrow> length (list_pop i xs) = length xs - 1"
  by (simp add: list_pop_def)

lemma ids_swap_pages [simp]: "ids (fst (swap_pages ev i1 s1 i2 s2 st)) = ids st"
  by (simp add: swap_pages_def op_simps)

lemma ids_swap_with_next_page [simp]: "ids (fst (swap_with_next_page ev p st)) = ids st"
  by (simp add: swap_with_next_page_def swap_pages_def op_simps split: option.splits)

lemma ids_swap_with_prev_page [simp]: "ids (fst (swap_with_prev_page ev p st)) = ids st"
  by (simp add: swap_with_prev_page_def swap_pages_def op_simps split: option.splits)

lemma ids_load_image_from_dialog [simp]: "ids (fst (load_image_from_dialog ev f p st)) = ids st"
  by (simp add: load_image_from_dialog_def op_simps split: option.splits)

lemma ids_delete_page:
  "ids (fst (delete_page ev reply p st)) = ids st
   \<or> (\<exists>i < length (ids st). 1 < length (ids st)
        \<and> ids (fst (delete_page ev reply p st)) = list_pop i (ids st))"
proof (cases "find_spread_and_page st p")
  case None
  then show ?thesis by (simp add: delete_page_def)
next
  case (Some a)
  then obtain i sp where found: "find_spread_and_page st p = Some (i, sp)"
    by (cases a) auto
  have len: "i < length (spreads st)"
    using find_spread_and_page_Some [OF found] by simp
  have "ids (fst (delete_page ev reply p st)) = ids st
     \<or> (1 < length (ids st) \<and> ids (fst (delete_page ev reply p st)) = list_pop i (ids st))"
    using found
    by (simp add: delete_page_def op_simps map_list_pop spreads_ids)
  with len show ?thesis by auto
qed

lemma page_ids_update_page_size [simp]:
  "page_ids (fst (update_page_size ev w sp)) = page_ids sp"
  by (simp add: update_page_size_def update_size_def load_image_eq page_ids_def Let_def
      split: option.splits)

lemma ids_update_sizes_loop [simp]:
  "map page_ids (fst (update_sizes_loop ev w sps)) = map page_ids sps"
proof (induction sps)
  case Nil
  then show ?case by simp
next
  case (Cons sp sps)
  have "page_ids (fst (update_page_size ev w sp)) = page_ids sp" by simp
  with Cons show ?case
    by (cases "update_page_size ev w sp"; cases "update_sizes_loop ev w sps")
       (auto split: option.splits)
qed

lemma ids_zoom [simp]:
  "ids (fst (zoom_in ev st)) = ids st"
  "ids (fst (zoom_out ev st)) = ids st"
  by (simp_all add: zoom_in_def zoom_out_def update_all_page_sizes_def Let_def spreads_ids)

lemma ids_add_new_spread [simp]:
  "ids (add_new_spread ev st) = ids st @ [(next_id st, Suc (next_id st))]"
  by (simp add: add_new_spread_def Let_def ids_def)

lemma ids_settings [simp]:
  "ids (toggle_page_numbers c st) = ids st"
  "ids (set_start_page_number n ok st) = ids st"
  by (simp_all add: toggle_page_numbers_def set_start_page_number_def)

lemma ids_new_book:
  "ids (new_book ev reply st) = (if reply = Yes then [(next_id st, Suc (next_id st))] else ids st)"
  by (simp add: new_book_def)


lemma page_ids_load_spread_data [simp]:
  "page_ids (fst (load_spread_data ev d sp)) = page_ids sp"
  by (simp add: load_spread_data_def op_simps)

lemma load_spreads_Cons:
  "load_spreads ev (d # ds) st =
     (if snd (load_spread_data ev d (SpreadWidget ev (next_id st) (current_page_width st) 1)) = None
      then load_spreads ev ds
             (st\<lparr>next_id := next_id st + 2,
                 spreads := spreads st @
                   [fst (load_spread_data ev d
                      (SpreadWidget ev (next_id st) (current_page_width st) 1))]\<rparr>)
      else (st\<lparr>next_id := next_id st + 2\<rparr>,
            snd (load_spread_data ev d (SpreadWidget ev (next_id st) (current_page_width st) 1))))"
  by (cases "load_spread_data ev d (SpreadWidget ev (next_id st) (current_page_width st) 1)")
     (auto simp add: Let_def split: option.splits)

lemma fresh_or_kept_load_spreads:
  "\<forall>(a, b) \<in> set (ids (fst (load_spreads ev ds st))).
     (a, b) \<in> set (ids st) \<or> (next_id st \<le> a \<and> b = Suc a)"
proof (induction ds arbitrary: st)
  case Nil
  then show ?case by auto
next
  case (Cons d ds)
  let ?r = "load_spread_data ev d (SpreadWidget ev (next_id st) (current_page_width st) 1)"
  let ?st1 = "st\<lparr>next_id := next_id st + 2, spreads := spreads st @ [fst ?r]\<rparr>"
  have ids1: "ids ?st1 = ids st @ [(next_id st, Suc (next_id st))]"
    by (simp add: ids_def)
  have n1: "next_id ?st1 = next_id st + 2" by simp
  show ?case
  proof (cases "snd ?r = None")
    case True
    then have eq: "load_spreads ev (d # ds) st = load_spreads ev ds ?st1"
      by (subst load_spreads_Cons) simp
    from Cons.IH [of ?st1] show ?thesis
      unfolding eq ids1 n1 by fastforce
  next
    case False
    then have "fst (load_spreads ev (d # ds) st) = st\<lparr>next_id := next_id st + 2\<rparr>"
      by (subst load_spreads_Cons) auto
    then show ?thesis by auto
  qed
qed

lemma length_load_spreads:
  "snd (load_spreads ev ds st) = None \<Longrightarrow>
   length (spreads (fst (load_spreads ev ds st))) = length (spreads st) + length ds"
proof (induction ds arbitrary: st)
  case Nil
  then show ?case by simp
next
  case (Cons d ds)
  let ?r = "load_spread_data ev d (SpreadWidget ev (next_id st) (current_page_width st) 1)"
  let ?st1 = "st\<lparr>next_id := next_id st + 2, spreads := spreads st @ [fst ?r]\<rparr>"
  show ?case
  proof (cases "snd ?r = None")
    case True
    then have eq: "load_spreads ev (d # ds) st = load_spreads ev ds ?st1"
      by (subst load_spreads_Cons) simp
    from Cons.prems have "snd (load_spreads ev ds ?st1) = None" by (simp only: eq)
    from Cons.IH [OF this] show ?thesis by (simp only: eq) simp
  next
    case False
    then have "snd (load_spreads ev (d # ds) st) = snd ?r"
      by (subst load_spreads_Cons) auto
    with Cons.prems False show ?thesis by simp
  qed
qed

lemma fresh_or_kept_load_book:
  "\<forall>(a, b) \<in> set (ids (loaded (fst (load_book ev reply file_name rd st)))).
     (a, b) \<in> set (ids st) \<or> (next_id st \<le> a \<and> b = Suc a)"
proof -
  have body: "\<forall>(a, b) \<in> set (ids (fst (load_book_body ev rd st))).
     (a, b) \<in> set (ids st) \<or> (next_id st \<le> a \<and> b = Suc a)"
  proof (cases rd)
    case (Inl e)
    then show ?thesis by (auto simp add: load_book_body_def)
  next
    case (Inr data)
    define st2 where "st2 = st\<lparr>spreads := [],
        current_page_width :=
          (case page_width_key (case settings_key data of
              None \<Rightarrow> \<lparr>page_width_key = None, page_number_start_key = None,
                        show_page_numbers_key = None\<rparr> | Some s \<Rightarrow> s) of None \<Rightarrow> 300 | Some w \<Rightarrow> w),
        page_number_start :=
          (case page_number_start_key (case settings_key data of
              None \<Rightarrow> \<lparr>page_width_key = None, page_number_start_key = None,
                        show_page_numbers_key = None\<rparr> | Some s \<Rightarrow> s) of None \<Rightarrow> 1 | Some n \<Rightarrow> n),
        show_page_numbers :=
          (case show_page_numbers_key (case settings_key data of
              None \<Rightarrow> \<lparr>page_width_key = None, page_number_start_key = None,
                        show_page_numbers_key = None\<rparr> | Some s \<Rightarrow> s) of None \<Rightarrow> True | Some b \<Rightarrow> b)\<rparr>"
    define ds where "ds = (case spreads_key data of None \<Rightarrow> [] | Some ds \<Rightarrow> ds)"
    have eq: "load_book_body ev rd st =
        and_then (load_spreads ev ds st2) (\<lambda>st3. (update_all_page_numbers st3, None))"
      by (simp add: load_book_body_def Inr Let_def st2_def ds_def)
    have "ids (fst (load_book_body ev rd st)) = ids (fst (load_spreads ev ds st2))"
      unfolding eq by (cases "load_spreads ev ds st2") (auto simp: and_then_def split: option.splits)
    moreover have "next_id st2 = next_id st" "ids st2 = []"
      by (simp_all add: st2_def ids_def)
    ultimately show ?thesis
      using fresh_or_kept_load_spreads [of ev ds st2] by auto
  qed
  show ?thesis
    using body
    by (cases "load_book_body ev rd st")
       (auto simp add: load_book_def split: option.splits)
qed

subsection \<open>Evaluating the operations on a concrete book\<close>

lemma py_int_times_300:
  "py_int_times 300 6368089873101881 52 = 424"
  "py_int_times 300 5854679515581645 52 = 390"
  "py_int_times 300 3152519739159347 52 = 210"
  by (simp_all add: py_int_times_def to_double_def round_half_even_def Let_def bit_length.simps)

lemma py_int_times_rounds:
  "py_int_times 700 3152519739159347 52 = 489"
  "py_int_times (- 300) 6368089873101881 52 = - 424"
  by (simp_all add: py_int_times_def to_double_def round_half_even_def Let_def bit_length.simps)

lemma good_env_simps:
  "path_exists good_env path = True"
  "pixmap_height good_env path = 100"
  "float_height good_env 300 = 424"
  "float_zoom_in good_env 300 = 390"
  "float_zoom_out good_env 300 = 210"
  by (simp_all add: good_env_def py_int_times_300)

lemmas eval_defs =
  book_abcd_def mk_book_def mk_spread_def mk_page_def good_env_simps broken_env_def
  find_spread_and_page_def get_page_index_def SpreadWidget_def PageWidget_def
  update_size_def update_page_number_def update_page_numbers_def
  update_all_page_numbers_def load_image_at_eq spread_load_image_eq load_image_eq
  set_image_path_def set_slot_path_def load_raises_def page_at_def page_of_def put_page_def
  list_insert_def list_pop_def Let_def ids_def page_ids_def enumerate_eq_zip

subsection \<open>Loading a document\<close>

lemma height_SpreadWidget [simp]:
  "height (page_of (SpreadWidget ev n w k) s) = float_height ev w"
  "image_path (page_of (SpreadWidget ev n w k) s) = []"
  by (cases s; simp add: SpreadWidget_def PageWidget_def update_size_def update_page_number_def
      page_of_def Let_def)+

lemma spread_paths_SpreadWidget [simp]: "spread_paths (SpreadWidget ev n w k) = ([], [])"
  using height_SpreadWidget(2) [of ev n w k LeftSlot] height_SpreadWidget(2) [of ev n w k RightSlot]
  by (simp add: spread_paths_def page_of_def)

lemma spread_paths_set_slot_path [simp]:
  "spread_paths (set_slot_path s path sp) =
     (case s of LeftSlot \<Rightarrow> (path, snd (spread_paths sp))
              | RightSlot \<Rightarrow> (fst (spread_paths sp), path))"
  by (cases s) (simp_all add: spread_paths_def set_slot_path_def put_page_def page_of_def)

lemma load_raises_fresh [simp]:
  "load_raises ev path (page_of (SpreadWidget ev n w k) s) =
     (path \<noteq> [] \<and> (float_height ev w = 0 \<or> pixmap_height ev path = 0))"
  by (simp add: load_raises_def)

lemma load_raises_height:
  "height pg = height pg' \<Longrightarrow> load_raises ev path pg = load_raises ev path pg'"
  by (simp add: load_raises_def)

lemma height_set_slot_path [simp]:
  "height (page_of (set_slot_path s path sp) s') = height (page_of sp s')"
  by (cases s; cases s') (simp_all add: set_slot_path_def put_page_def page_of_def)

lemma load_raises_set_slot_path [simp]:
  "load_raises ev p (page_of (set_slot_path s path sp) s') = load_raises ev p (page_of sp s')"
  by (rule load_raises_height) simp

lemma load_spread_data_fresh:
  "snd (load_spread_data ev d (SpreadWidget ev n w k)) =
     (if entry_raises ev w d then Some ZeroDivisionError else None)"
  "\<not> entry_raises ev w d \<Longrightarrow>
     spread_paths (fst (load_spread_data ev d (SpreadWidget ev n w k))) = loaded_paths ev d"
  by (auto simp add: load_spread_data_def op_simps entry_raises_def slot_raises_def
      loaded_paths_def loaded_path_def doc_path_def)

lemma image_paths_simps [simp]:
  "image_paths (st\<lparr>next_id := n\<rparr>) = image_paths st"
  "image_paths (st\<lparr>spreads := sps\<rparr>) = map spread_paths sps"
  "image_paths (st\<lparr>current_page_width := w\<rparr>) = image_paths st"
  "image_paths (st\<lparr>page_number_start := k\<rparr>) = image_paths st"
  "image_paths (st\<lparr>show_page_numbers := b\<rparr>) = image_paths st"
  by (simp_all add: image_paths_def)

lemma current_page_width_load_spreads [simp]:
  "current_page_width (fst (load_spreads ev ds st)) = current_page_width st"
proof (induction ds arbitrary: st)
  case Nil
  then show ?case by simp
next
  case (Cons d ds)
  show ?case by (subst load_spreads_Cons) (simp add: Cons.IH)
qed

lemma load_spreads_paths:
  "image_paths (fst (load_spreads ev ds st)) =
     image_paths st @
       map (loaded_paths ev) (takeWhile (\<lambda>d. \<not> entry_raises ev (current_page_width st) d) ds)
   \<and> snd (load_spreads ev ds st) =
     (if \<forall>d \<in> set ds. \<not> entry_raises ev (current_page_width st) d then None
      else Some ZeroDivisionError)"
proof (induction ds arbitrary: st)
  case Nil
  then show ?case by simp
next
  case (Cons d ds)
  let ?sp = "SpreadWidget ev (next_id st) (current_page_width st) 1"
  let ?st1 = "st\<lparr>next_id := next_id st + 2,
                  spreads := spreads st @ [fst (load_spread_data ev d ?sp)]\<rparr>"
  show ?case
  proof (cases "entry_raises ev (current_page_width st) d")
    case True
    then show ?thesis
      by (subst (1 2) load_spreads_Cons) (simp add: load_spread_data_fresh)
  next
    case False
    have w: "current_page_width ?st1 = current_page_width st" by simp
    from False have eq: "load_spreads ev (d # ds) st = load_spreads ev ds ?st1"
      by (subst load_spreads_Cons) (simp add: load_spread_data_fresh)
    from False have p: "image_paths ?st1 = image_paths st @ [loaded_paths ev d]"
      by (simp add: load_spread_data_fresh) (simp add: image_paths_def)
    from Cons.IH [of ?st1] False show ?thesis
      unfolding eq w p by simp
  qed
qed


lemma load_book_body_eq:
  "load_book_body ev (Inr data) st =
     and_then
       (load_spreads ev (doc_entries data)
          (st\<lparr>spreads := [], current_page_width := doc_page_width data,
              page_number_start := doc_page_number_start data,
              show_page_numbers := doc_show_page_numbers data\<rparr>))
       (\<lambda>st3. (update_all_page_numbers st3, None))"
  by (simp add: load_book_body_def Let_def doc_entries_def doc_page_width_def
      doc_page_number_start_def doc_show_page_numbers_def doc_settings_def)

lemma fst_and_then: "fst (and_then r f) = (if snd r = None then fst (f (fst r)) else fst r)"
  by (cases r) (auto simp: and_then_def split: option.splits)

lemma snd_and_then: "snd (and_then r f) = (if snd r = None then snd (f (fst r)) else snd r)"
  by (cases r) (auto simp: and_then_def split: option.splits)

lemma spread_paths_update_page_numbers [simp]:
  "spread_paths (update_page_numbers n v sp) = spread_paths sp"
  by (simp add: spread_paths_def update_page_numbers_def update_page_number_def)

lemma image_paths_update_all_page_numbers [simp]:
  "image_paths (update_all_page_numbers st) = image_paths st"
  by (auto simp add: image_paths_def update_all_page_numbers_def list_eq_iff_nth_eq
      nth_enumerate_eq)

lemma settings_load_spreads [simp]:
  "page_number_start (fst (load_spreads ev ds st)) = page_number_start st"
  "show_page_numbers (fst (load_spreads ev ds st)) = show_page_numbers st"
proof (induction ds arbitrary: st)
  case Nil
  {
    case 1 show ?case by simp
  next
    case 2 show ?case by simp
  }
next
  case (Cons d ds)
  {
    case 1 show ?case by (subst load_spreads_Cons) (simp add: Cons.IH)
  next
    case 2 show ?case by (subst load_spreads_Cons) (simp add: Cons.IH)
  }
qed

lemma settings_update_all_page_numbers [simp]:
  "current_page_width (update_all_page_numbers st) = current_page_width st"
  "page_number_start (update_all_page_numbers st) = page_number_start st"
  "show_page_numbers (update_all_page_numbers st) = show_page_numbers st"
  by (simp_all add: update_all_page_numbers_def)

lemma load_book_body_result:
  "image_paths (fst (load_book_body ev (Inr data) st)) =
     map (loaded_paths ev)
       (takeWhile (\<lambda>d. \<not> entry_raises ev (doc_page_width data) d) (doc_entries data))"
  "snd (load_book_body ev (Inr data) st) =
     (if \<forall>d \<in> set (doc_entries data). \<not> entry_raises ev (doc_page_width data) d then None
      else Some ZeroDivisionError)"
  "current_page_width (fst (load_book_body ev (Inr data) st)) = doc_page_width data"
  "page_number_start (fst (load_book_body ev (Inr data) st)) = doc_page_number_start data"
  "show_page_numbers (fst (load_book_body ev (Inr data) st)) = doc_show_page_numbers data"
  using load_spreads_paths [of ev "doc_entries data"
      "st\<lparr>spreads := [], current_page_width := doc_page_width data,
          page_number_start := doc_page_number_start data,
          show_page_numbers := doc_show_page_numbers data\<rparr>"]
  by (simp_all add: load_book_body_eq fst_and_then snd_and_then)

lemma load_book_proceeds:
  "file_name \<noteq> [] \<Longrightarrow> spreads st = [] \<or> reply = Yes \<Longrightarrow>
   loaded (fst (load_book ev reply file_name rd st)) = fst (load_book_body ev rd st)
   \<and> load_shown (fst (load_book ev reply file_name rd st)) =
       map_option LoadErrorBox (snd (load_book_body ev rd st))"
  by (cases "load_book_body ev rd st"; cases reply)
     (auto simp add: load_book_def split: option.splits)


lemma doc_path_clear_doc_path [simp]:
  "doc_path (clear_doc_path s d) s' = (if s = s' then [] else doc_path d s')"
  by (cases s; cases s') (simp_all add: doc_path_def clear_doc_path_def doc_image_path_def)

lemma load_spread_data_doc_path:
  "load_spread_data ev d sp =
     and_then
       (if doc_path d LeftSlot \<noteq> [] \<and> path_exists ev (doc_path d LeftSlot) then
          spread_load_image ev LeftSlot (doc_path d LeftSlot) sp
        else (sp, None))
       (\<lambda>sp1. if doc_path d RightSlot \<noteq> [] \<and> path_exists ev (doc_path d RightSlot) then
                 spread_load_image ev RightSlot (doc_path d RightSlot) sp1
               else (sp1, None))"
  by (simp add: load_spread_data_def doc_path_def Let_def)

lemma load_spread_data_clear:
  assumes "doc_path d s \<noteq> []" and "\<not> path_exists ev (doc_path d s)"
  shows "load_spread_data ev (clear_doc_path s d) sp = load_spread_data ev d sp"
  using assms by (cases s) (simp_all add: load_spread_data_doc_path)

lemma load_spreads_clear:
  assumes "i < length ds" and "doc_path (ds ! i) s \<noteq> []"
    and "\<not> path_exists ev (doc_path (ds ! i) s)"
  shows "load_spreads ev (ds[i := clear_doc_path s (ds ! i)]) st = load_spreads ev ds st"
  using assms
proof (induction ds arbitrary: i st)
  case Nil
  then show ?case by simp
next
  case (Cons d ds)
  show ?case
  proof (cases i)
    case 0
    with Cons.prems have "load_spread_data ev (clear_doc_path s d) sp = load_spread_data ev d sp"
      for sp by (simp add: load_spread_data_clear)
    with 0 show ?thesis by (simp add: Let_def)
  next
    case (Suc j)
    with Cons.prems have "load_spreads ev (ds[j := clear_doc_path s (ds ! j)]) st' =
        load_spreads ev ds st'" for st'
      by (intro Cons.IH) simp_all
    with Suc show ?thesis by (simp add: Let_def)
  qed
qed

lemma image_path_page_at:
  "i < length (spreads st) \<Longrightarrow>
   image_path (page_at st i s) =
     (case s of LeftSlot \<Rightarrow> fst (image_paths st ! i) | RightSlot \<Rightarrow> snd (image_paths st ! i))"
  by (cases s) (simp_all add: page_at_def page_of_def image_paths_def spread_paths_def)

lemma length_image_paths [simp]: "length (image_paths st) = length (spreads st)"
  by (simp add: image_paths_def)

lemma length_takeWhile_gt:
  assumes "i < length xs" and "\<forall>j \<le> i. P (xs ! j)"
  shows "i < length (takeWhile P xs)"
proof (rule ccontr)
  assume "\<not> i < length (takeWhile P xs)"
  then have le: "length (takeWhile P xs) \<le> i" by simp
  with assms(1) have "length (takeWhile P xs) < length xs" by simp
  then have "\<not> P (xs ! length (takeWhile P xs))" by (rule nth_length_takeWhile)
  with assms(2) le show False by blast
qed

lemma doc_book_data [simp]:
  "doc_entries (book_data st) = map spread_data (spreads st)"
  "doc_page_width (book_data st) = current_page_width st"
  "doc_page_number_start (book_data st) = page_number_start st"
  "doc_show_page_numbers (book_data st) = show_page_numbers st"
  by (simp_all add: book_data_def doc_entries_def doc_page_width_def doc_page_number_start_def
      doc_show_page_numbers_def doc_settings_def)

lemma doc_path_spread_data [simp]: "doc_path (spread_data sp) s = image_path (page_of sp s)"
  by (cases s) (simp_all add: doc_path_def spread_data_def doc_image_path_def page_of_def)

lemma save_load_round_trip:
  assumes chosen: "file_name \<noteq> []" and confirmed: "spreads st' = [] \<or> reply = Yes"
    and fits: "size_fits ev (current_page_width st)"
    and exist: "\<forall>sp \<in> set (spreads st). \<forall>s. image_path (page_of sp s) \<noteq> [] \<longrightarrow>
        path_exists ev (image_path (page_of sp s))"
    and decode: "\<forall>sp \<in> set (spreads st). \<forall>s. image_path (page_of sp s) \<noteq> [] \<longrightarrow>
        float_height ev (current_page_width st) \<noteq> 0
        \<and> pixmap_height ev (image_path (page_of sp s)) \<noteq> 0"
  shows "load_shown (fst (load_book ev reply file_name (Inr (book_data st)) st')) = None
    \<and> current_page_width (loaded (fst (load_book ev reply file_name (Inr (book_data st)) st')))
        = current_page_width st
    \<and> page_number_start (loaded (fst (load_book ev reply file_name (Inr (book_data st)) st')))
        = page_number_start st
    \<and> show_page_numbers (loaded (fst (load_book ev reply file_name (Inr (book_data st)) st')))
        = show_page_numbers st
    \<and> image_paths (loaded (fst (load_book ev reply file_name (Inr (book_data st)) st')))
        = image_paths st"
proof -
  let ?P = "\<lambda>d. \<not> entry_raises ev (current_page_width st) d"
  have no_raise: "\<forall>d \<in> set (map spread_data (spreads st)). ?P d"
    using decode by (auto simp add: entry_raises_def slot_raises_def)
  then have tw: "takeWhile ?P (map spread_data (spreads st)) = map spread_data (spreads st)"
    by simp
  have "loaded_paths ev (spread_data sp) = spread_paths sp" if "sp \<in> set (spreads st)" for sp
    using exist that
    by (auto simp add: loaded_paths_def loaded_path_def spread_paths_def page_of_def
        split: slot.splits)
  then have lp: "map (loaded_paths ev) (map spread_data (spreads st)) = image_paths st"
    by (simp add: image_paths_def)
  have res: "map (loaded_paths ev) (takeWhile ?P (map spread_data (spreads st))) = image_paths st"
    unfolding tw by (rule lp)
  let ?r = "load_book ev reply file_name (Inr (book_data st)) st'"
  have after: "loaded (fst ?r) = fst (load_book_body ev (Inr (book_data st)) st')"
    and shown: "load_shown (fst ?r) = map_option LoadErrorBox (snd (load_book_body ev (Inr (book_data st)) st'))"
    using load_book_proceeds [OF chosen confirmed, of ev "Inr (book_data st)"] by simp_all
  have "image_paths (loaded (fst ?r)) = image_paths st"
    unfolding after load_book_body_result doc_book_data by (rule res)
  moreover have "load_shown (fst ?r) = None"
    unfolding shown load_book_body_result doc_book_data using no_raise by simp
  moreover have "current_page_width (loaded (fst ?r)) = current_page_width st"
    "page_number_start (loaded (fst ?r)) = page_number_start st"
    "show_page_numbers (loaded (fst ?r)) = show_page_numbers st"
    unfolding after by (simp_all add: load_book_body_result)
  ultimately show ?thesis by simp
qed

lemmas load_eval_defs =
  load_book_def load_book_body_def load_spread_data_def doc_image_path_def
  book_data_def spread_data_def and_then_def

subsection \<open>Image paths of the book\<close>

lemma image_paths_set_image_path:
  "i < length (spreads st) \<Longrightarrow>
   image_paths (set_image_path i s path st) =
     (image_paths st)[i := (case s of LeftSlot \<Rightarrow> (path, snd (image_paths st ! i))
                                  | RightSlot \<Rightarrow> (fst (image_paths st ! i), path))]"
  by (cases s) (simp_all add: image_paths_def set_image_path_def map_update)

lemma height_page_at_set_image_path [simp]:
  "height (page_at (set_image_path i s path st) j s') = height (page_at st j s')"
proof (cases "i < length (spreads st)")
  case True
  then show ?thesis
    by (cases "i = j") (simp_all add: page_at_def set_image_path_def)
next
  case False
  then have "(spreads st)[i := set_slot_path s path (spreads st ! i)] = spreads st"
    by (intro list_update_beyond) simp
  then show ?thesis by (simp add: page_at_def set_image_path_def)
qed

lemma load_raises_page_at_set_image_path [simp]:
  "load_raises ev p (page_at (set_image_path i s path st) j s') = load_raises ev p (page_at st j s')"
  by (rule load_raises_height) simp

lemma image_paths_set_path:
  "i < length (spreads st) \<Longrightarrow>
   image_paths (set_image_path i s path st) = set_path i s path (image_paths st)"
  by (simp add: image_paths_set_image_path set_path_def)

lemma image_path_get_path:
  "i < length (spreads st) \<Longrightarrow> image_path (page_at st i s) = get_path (image_paths st) i s"
  by (simp add: image_path_page_at get_path_def)

lemma length_set_path [simp]: "length (set_path i s path xs) = length xs"
  by (simp add: set_path_def)

lemma get_path_set_path:
  "i < length xs \<Longrightarrow>
   get_path (set_path i s path xs) j s' =
     (if i = j \<and> s = s' then path else get_path xs j s')"
  by (cases s; cases s') (auto simp add: get_path_def set_path_def nth_list_update)

lemma swap_paths_exchange:
  assumes "i1 < length xs" and "i2 < length xs" and "(i1, s1) \<noteq> (i2, s2)"
  shows "length (swap_paths i1 s1 i2 s2 xs) = length xs"
    and "get_path (swap_paths i1 s1 i2 s2 xs) j s =
      (if (j, s) = (i1, s1) then get_path xs i2 s2
       else if (j, s) = (i2, s2) then get_path xs i1 s1
       else get_path xs j s)"
  using assms by (auto simp add: swap_paths_def get_path_set_path)

lemma nth_set_path:
  "i < length xs \<Longrightarrow> set_path i s path xs ! i =
     (case s of LeftSlot \<Rightarrow> (path, snd (xs ! i)) | RightSlot \<Rightarrow> (fst (xs ! i), path))"
  by (simp add: set_path_def)

lemma spread_paths_nth:
  "i < length (spreads st) \<Longrightarrow> spread_paths (spreads st ! i) = image_paths st ! i"
  by (simp add: image_paths_def)

lemma image_path_left_right:
  "image_path (left_page sp) = fst (spread_paths sp)"
  "image_path (right_page sp) = snd (spread_paths sp)"
  by (simp_all add: spread_paths_def)

section \<open>Page numbers\<close>

lemma length_update_all_page_numbers [simp]:
  "length (spreads (update_all_page_numbers st)) = length (spreads st)"
  by (simp add: update_all_page_numbers_def)

lemma nth_update_all_page_numbers:
  "i < length (spreads st) \<Longrightarrow>
   spreads (update_all_page_numbers st) ! i =
     update_page_numbers (page_number_start st + int i * 2) (show_page_numbers st)
       (spreads st ! i)"
  by (simp add: update_all_page_numbers_def nth_enumerate_eq)

text \<open>
  C1. After \<^verbatim>\<open>update_all_page_numbers\<close>, the left page of the spread at index \<open>i\<close>
  shows \<open>page_number_start + 2 * i\<close> and the right page shows
  \<open>page_number_start + 2 * i + 1\<close>, for every index of the spreads list; the list
  keeps its length and the start number is not touched.
\<close>

theorem update_all_page_numbers_displayed:
  "i < length (spreads st) \<Longrightarrow>
   page_number (left_page (spreads (update_all_page_numbers st) ! i))
     = page_number_start st + 2 * int i
   \<and> page_number (right_page (spreads (update_all_page_numbers st) ! i))
     = page_number_start st + 2 * int i + 1
   \<and> length (spreads (update_all_page_numbers st)) = length (spreads st)
   \<and> page_number_start (update_all_page_numbers st) = page_number_start st"
proof -
  assume i: "i < length (spreads st)"
  have start: "page_number_start (update_all_page_numbers st) = page_number_start st"
    by (simp add: update_all_page_numbers_def)
  show ?thesis
    using i start
    by (simp add: nth_update_all_page_numbers update_page_numbers_def
        update_page_number_def)
qed

theorem update_all_page_numbers_displayed_witness:
  "(1::nat) < length (spreads book_abcd)
   \<and> page_number (left_page (spreads (update_all_page_numbers book_abcd) ! 1)) = 3
   \<and> page_number (right_page (spreads (update_all_page_numbers book_abcd) ! 1)) = 4"
  using update_all_page_numbers_displayed [of 1 book_abcd]
  by (simp add: book_abcd_def mk_book_def)

section \<open>The saved document\<close>

text \<open>
  C4. The document \<^verbatim>\<open>save_book\<close> builds is an object with a \<open>settings\<close> object holding
  the keys \<open>page_width\<close>, \<open>page_number_start\<close> and \<open>show_page_numbers\<close> with the current
  values of the three fields, and a \<open>spreads\<close> array whose elements, in spread order,
  are objects with a \<open>left_page\<close> and a \<open>right_page\<close>, each holding the \<open>image_path\<close> of
  that page. When a file name was chosen and the write succeeds, this document is
  what is written, under the chosen name completed to end in \<^verbatim>\<open>.book.json\<close>.
\<close>

theorem save_book_document:
  "book_data st =
     \<lparr>settings_key = Some
        \<lparr>page_width_key = Some (current_page_width st),
         page_number_start_key = Some (page_number_start st),
         show_page_numbers_key = Some (show_page_numbers st)\<rparr>,
      spreads_key = Some
        (map (\<lambda>sp. \<lparr>left_page_key = Some \<lparr>image_path_key = Some (image_path (left_page sp))\<rparr>,
                     right_page_key = Some \<lparr>image_path_key = Some (image_path (right_page sp))\<rparr>\<rparr>)
             (spreads st))\<rparr>
   \<and> save_book file_name None st =
       (\<lparr>written = (if file_name = [] then None
                      else Some (if suffix ''.book.json'' file_name then file_name
                                 else file_name @ ''.book.json'', book_data st)),
         save_shown = None\<rparr>, None)"
  by (simp add: book_data_def spread_data_def save_book_def Let_def)

section \<open>Failures of file input and output\<close>

text \<open>
  C8. No exception leaves \<^verbatim>\<open>save_book\<close> or \<^verbatim>\<open>load_book\<close>. When a file was chosen
  and writing it raises, \<^verbatim>\<open>save_book\<close> shows the critical box of the save error with
  that exception. When a file was chosen, the load was not declined, and reading or
  parsing the file raises, \<^verbatim>\<open>load_book\<close> shows the critical box of the load error
  with that exception and leaves the book as it was; the same box reports any
  exception raised later in the body of the \<^verbatim>\<open>try\<close> block.
\<close>

theorem file_failures_shown_in_message_box:
  "snd (save_book file_name wr st) = None
   \<and> snd (load_book ev reply file_name rd st) = None
   \<and> (file_name \<noteq> [] \<longrightarrow>
        save_book file_name (Some e) st =
          (\<lparr>written = None, save_shown = Some (SaveErrorBox e)\<rparr>, None))
   \<and> (file_name \<noteq> [] \<longrightarrow> (spreads st = [] \<or> reply = Yes) \<longrightarrow>
        load_book ev reply file_name (Inl e) st =
          (\<lparr>loaded = st, load_shown = Some (LoadErrorBox e)\<rparr>, None))
   \<and> (file_name \<noteq> [] \<longrightarrow> (spreads st = [] \<or> reply = Yes) \<longrightarrow>
        snd (load_book_body ev rd st) = Some e \<longrightarrow>
        load_shown (fst (load_book ev reply file_name rd st)) = Some (LoadErrorBox e))"
proof (intro conjI impI)
  show "snd (save_book file_name wr st) = None"
    by (simp add: save_book_def Let_def split: option.splits)
  show "snd (load_book ev reply file_name rd st) = None"
    by (simp add: load_book_def split: prod.splits option.splits)
next
  assume "file_name \<noteq> []"
  then show "save_book file_name (Some e) st =
      (\<lparr>written = None, save_shown = Some (SaveErrorBox e)\<rparr>, None)"
    by (simp add: save_book_def Let_def)
next
  assume "file_name \<noteq> []" and "spreads st = [] \<or> reply = Yes"
  then show "load_book ev reply file_name (Inl e) st =
      (\<lparr>loaded = st, load_shown = Some (LoadErrorBox e)\<rparr>, None)"
    by (auto simp add: load_book_def load_book_body_def)
next
  assume "file_name \<noteq> []" and "spreads st = [] \<or> reply = Yes"
    and "snd (load_book_body ev rd st) = Some e"
  then show "load_shown (fst (load_book ev reply file_name rd st)) = Some (LoadErrorBox e)"
    by (cases reply) (auto simp add: load_book_def split: prod.splits option.splits)
qed

theorem file_failures_shown_in_message_box_witness:
  "save_book ''x'' (Some OSError) book_abcd =
     (\<lparr>written = None, save_shown = Some (SaveErrorBox OSError)\<rparr>, None)
   \<and> load_book good_env Yes ''x'' (Inl OSError) book_abcd =
     (\<lparr>loaded = book_abcd, load_shown = Some (LoadErrorBox OSError)\<rparr>, None)
   \<and> load_shown (fst (load_book good_env Yes ''x'' (Inl OSError) book_abcd)) =
     Some (LoadErrorBox OSError)"
  using file_failures_shown_in_message_box
    [where file_name = "''x''" and e = OSError and st = book_abcd and reply = Yes
       and rd = "Inl OSError" and ev = good_env]
  by (simp add: load_book_body_def)

section \<open>Pages live and die with their spread\<close>

text \<open>
  C9. A spread has exactly two page slots, the fields \<open>left_page\<close> and \<open>right_page\<close>
  of its record, and its constructor makes both pages at once, with the two
  identities it is given. After any operation of the application, every spread of
  the book holds the pair of pages of a spread that was there before, or a pair
  newly made by the constructor (identities not used before): no page joins or
  leaves an existing spread, and no page appears without its spread.
\<close>

theorem pages_belong_to_spreads:
  "page_ids (SpreadWidget ev n w k) = (n, Suc n)
   \<and> (\<forall>(a, b) \<in> set (ids (step ev act st)).
        (a, b) \<in> set (ids st) \<or> (next_id st \<le> a \<and> b = Suc a))"
proof
  show "page_ids (SpreadWidget ev n w k) = (n, Suc n)" by simp
  show "\<forall>(a, b) \<in> set (ids (step ev act st)).
        (a, b) \<in> set (ids st) \<or> (next_id st \<le> a \<and> b = Suc a)"
  proof (cases act)
    case (InsertBefore p)
    show ?thesis
    proof (cases "find_spread_and_page st p")
      case None
      then show ?thesis by (auto simp add: InsertBefore insert_not_contained)
    next
      case (Some a)
      then obtain i sp where "find_spread_and_page st p = Some (i, sp)" by (cases a) auto
      from ids_insert_new_page_before [OF this, of ev] show ?thesis
        by (auto simp add: InsertBefore split: if_splits)
    qed
  next
    case (InsertAfter p)
    show ?thesis
    proof (cases "find_spread_and_page st p")
      case None
      then show ?thesis by (auto simp add: InsertAfter insert_not_contained)
    next
      case (Some a)
      then obtain i sp where "find_spread_and_page st p = Some (i, sp)" by (cases a) auto
      from ids_insert_new_page_after [OF this, of ev] show ?thesis
        by (auto simp add: InsertAfter split: if_splits)
    qed
  next
    case (DeletePage reply p)
    from ids_delete_page [of ev reply p st] set_list_pop show ?thesis
      by (fastforce simp add: DeletePage)
  next
    case (LoadBook reply file_name rd)
    from fresh_or_kept_load_book [of ev reply file_name rd st] show ?thesis
      by (simp add: LoadBook)
  next
    case (NewBook reply)
    then show ?thesis by (auto simp add: ids_new_book)
  qed auto
qed


theorem pages_belong_to_spreads_witness:
  "page_ids (SpreadWidget good_env 4 300 1) = (4, 5)
   \<and> (4, 5) \<in> set (ids (step good_env (InsertAfter 1) book_abcd))
   \<and> ((4, 5) \<in> set (ids book_abcd) \<or> (next_id book_abcd \<le> 4 \<and> (5::nat) = Suc 4))"
  using pages_belong_to_spreads [of good_env 4 300 1 "InsertAfter 1" book_abcd]
  by (simp add: insert_new_page_after_def eval_defs)



section \<open>The book keeps at least one spread\<close>

text \<open>
  The book \<^verbatim>\<open>__init__\<close> builds has one spread. Loading a document whose \<open>spreads\<close>
  array is empty leaves the book without any spread: \<^verbatim>\<open>load_book\<close> clears the list
  and appends one spread for each entry of the array.
\<close>

theorem load_book_empties_the_book:
  "spreads (initial_app good_env) \<noteq> []
   \<and> spreads (step good_env
        (LoadBook Yes ''empty.book.json'' (Inr \<lparr>settings_key = None, spreads_key = Some []\<rparr>))
        (initial_app good_env)) = []"
  by (simp add: initial_app_def add_new_spread_def load_book_def load_book_body_def Let_def
      update_all_page_numbers_def)



lemma nonempty_ids: "(spreads st \<noteq> []) = (ids st \<noteq> [])"
  by (simp add: ids_def)

lemma nonempty_step:
  assumes "spreads st \<noteq> []" and "\<not> is_load act"
  shows "spreads (step ev act st) \<noteq> []"
proof -
  from assms(1) have ne: "ids st \<noteq> []" by (simp add: nonempty_ids)
  have "ids (step ev act st) \<noteq> []"
  proof (cases act)
    case AddNewSpread
    then show ?thesis by simp
  next
    case (TogglePageNumbers c)
    with ne show ?thesis by simp
  next
    case (SetStartPageNumber n ok)
    with ne show ?thesis by simp
  next
    case (SwapWithPrev p)
    with ne show ?thesis by simp
  next
    case (SwapWithNext p)
    with ne show ?thesis by simp
  next
    case (InsertBefore p)
    show ?thesis
    proof (cases "find_spread_and_page st p")
      case None
      with ne show ?thesis by (simp add: InsertBefore insert_not_contained)
    next
      case (Some a)
      then obtain i sp where "find_spread_and_page st p = Some (i, sp)" by (cases a) auto
      from ids_insert_new_page_before [OF this, of ev] ne show ?thesis
        by (simp add: InsertBefore list_insert_def split: if_splits)
    qed
  next
    case (InsertAfter p)
    show ?thesis
    proof (cases "find_spread_and_page st p")
      case None
      with ne show ?thesis by (simp add: InsertAfter insert_not_contained)
    next
      case (Some a)
      then obtain i sp where "find_spread_and_page st p = Some (i, sp)" by (cases a) auto
      from ids_insert_new_page_after [OF this, of ev] ne show ?thesis
        by (simp add: InsertAfter list_insert_def split: if_splits)
    qed
  next
    case (DeletePage reply p)
    let ?after = "ids (fst (delete_page ev reply p st))"
    from ids_delete_page [of ev reply p st] have "?after \<noteq> []"
    proof (elim disjE exE conjE)
      assume "?after = ids st"
      with ne show ?thesis by simp
    next
      fix i
      assume "i < length (ids st)" and long: "1 < length (ids st)"
        and "?after = list_pop i (ids st)"
      then have "length ?after = length (ids st) - 1"
        by (simp only: length_list_pop)
      with long have "length ?after \<noteq> 0" by linarith
      then show ?thesis by (auto simp del: length_ids)
    qed
    then show ?thesis by (simp add: DeletePage)
  next
    case (LoadImageFromDialog f p)
    with ne show ?thesis by simp
  next
    case ZoomIn
    with ne show ?thesis by simp
  next
    case ZoomOut
    with ne show ?thesis by simp
  next
    case (NewBook reply)
    with ne show ?thesis by (simp add: ids_new_book)
  next
    case (SaveBook f wr)
    with ne show ?thesis by (simp add: ids_def)
  next
    case (LoadBook reply file_name rd)
    with assms(2) show ?thesis by simp
  qed
  then show ?thesis by (simp add: nonempty_ids)
qed


text \<open>
  C3, amended. The initial book has one spread. Every operation other than a load
  keeps a non-empty spreads list non-empty. A load that is declined or cancelled,
  and a load whose file cannot be read or parsed, leave the book as it is. A load
  that ends without an error box leaves exactly as many spreads as the \<open>spreads\<close>
  array of the document has entries (none when the key is absent).
\<close>

theorem spreads_nonempty_except_after_load:
  "length (spreads (initial_app ev)) = 1
   \<and> (spreads st \<noteq> [] \<longrightarrow> \<not> is_load act \<longrightarrow> spreads (step ev act st) \<noteq> [])
   \<and> (spreads st \<noteq> [] \<longrightarrow> step ev (LoadBook No file_name rd) st = st)
   \<and> (step ev (LoadBook reply [] rd) st = st)
   \<and> (step ev (LoadBook reply file_name (Inl e)) st = st)
   \<and> (file_name \<noteq> [] \<longrightarrow>
        load_shown (fst (load_book ev Yes file_name (Inr data) st)) = None \<longrightarrow>
        length (spreads (step ev (LoadBook Yes file_name (Inr data)) st)) =
          length (case spreads_key data of None \<Rightarrow> [] | Some ds \<Rightarrow> ds))"
proof (intro conjI impI)
  show "length (spreads (initial_app ev)) = 1"
    by (simp add: initial_app_def add_new_spread_def Let_def)
next
  assume "spreads st \<noteq> []" and "\<not> is_load act"
  then show "spreads (step ev act st) \<noteq> []" by (rule nonempty_step)
next
  assume "spreads st \<noteq> []"
  then show "step ev (LoadBook No file_name rd) st = st"
    by (simp add: load_book_def)
next
  show "step ev (LoadBook reply [] rd) st = st"
    by (simp add: load_book_def)
next
  show "step ev (LoadBook reply file_name (Inl e)) st = st"
    by (simp add: load_book_def load_book_body_def)
next
  assume fn: "file_name \<noteq> []"
    and ok: "load_shown (fst (load_book ev Yes file_name (Inr data) st)) = None"
  define ds where "ds = (case spreads_key data of None \<Rightarrow> [] | Some ds \<Rightarrow> ds)"
  define st2 where "st2 = st\<lparr>spreads := [],
        current_page_width :=
          (case page_width_key (case settings_key data of
              None \<Rightarrow> \<lparr>page_width_key = None, page_number_start_key = None,
                        show_page_numbers_key = None\<rparr> | Some s \<Rightarrow> s) of None \<Rightarrow> 300 | Some w \<Rightarrow> w),
        page_number_start :=
          (case page_number_start_key (case settings_key data of
              None \<Rightarrow> \<lparr>page_width_key = None, page_number_start_key = None,
                        show_page_numbers_key = None\<rparr> | Some s \<Rightarrow> s) of None \<Rightarrow> 1 | Some n \<Rightarrow> n),
        show_page_numbers :=
          (case show_page_numbers_key (case settings_key data of
              None \<Rightarrow> \<lparr>page_width_key = None, page_number_start_key = None,
                        show_page_numbers_key = None\<rparr> | Some s \<Rightarrow> s) of None \<Rightarrow> True | Some b \<Rightarrow> b)\<rparr>"
  have eq: "load_book_body ev (Inr data) st =
      and_then (load_spreads ev ds st2) (\<lambda>st3. (update_all_page_numbers st3, None))"
    by (simp add: load_book_body_def Let_def st2_def ds_def)
  show "length (spreads (step ev (LoadBook Yes file_name (Inr data)) st)) =
          length (case spreads_key data of None \<Rightarrow> [] | Some ds \<Rightarrow> ds)"
  proof (cases "snd (load_spreads ev ds st2)")
    case None
    from length_load_spreads [OF None] have "length (spreads (fst (load_spreads ev ds st2))) = length ds"
      by (simp add: st2_def)
    with None fn show ?thesis
      by (cases "load_spreads ev ds st2")
         (simp add: load_book_def eq ds_def)
  next
    case (Some e')
    with fn ok show ?thesis
      by (cases "load_spreads ev ds st2")
         (simp add: load_book_def eq)
  qed
qed


theorem spreads_nonempty_except_after_load_witness:
  "length (spreads (initial_app good_env)) = 1
   \<and> spreads (step good_env (NewBook Yes) book_abcd) \<noteq> []
   \<and> step good_env (LoadBook No ''f'' (Inl OSError)) book_abcd = book_abcd
   \<and> step good_env (LoadBook No [] (Inl OSError)) book_abcd = book_abcd
   \<and> length (spreads (step good_env (LoadBook Yes ''f'' (Inr (book_data book_abcd))) book_abcd))
       = 2"
  using spreads_nonempty_except_after_load
    [where ev = good_env and st = book_abcd and act = "NewBook Yes" and reply = No
       and file_name = "''f''" and rd = "Inl OSError" and data = "book_data book_abcd"]
  by (simp add: load_book_def load_book_body_def load_spread_data_def doc_image_path_def
      book_data_def spread_data_def and_then_def eval_defs)


section \<open>Missing image files on load\<close>

text \<open>
  Let a load go ahead (a file was chosen and the load was not declined) on a
  document of the shape \<^verbatim>\<open>save_book\<close> writes, and let entry \<open>i\<close> of its \<open>spreads\<close> array
  name, for one of its pages, a non-empty path of a file that does not exist. Then
  no exception leaves \<^verbatim>\<open>load_book\<close>; the outcome, message box included, is the one of
  the same document with that path empty, so the missing file itself adds no error
  and no message; and the page slot of every spread built for the entry has an
  empty image path. For a page size that fits, the spread for the entry is built
  and appended when no image file that does exist failed to load for this entry or
  an earlier one.
\<close>

lemma missing_image_adds_no_error:
  assumes chosen: "file_name \<noteq> []" and confirmed: "spreads st = [] \<or> reply = Yes"
    and i: "i < length (doc_entries data)"
    and nonempty: "doc_path (doc_entries data ! i) s \<noteq> []"
    and missing: "\<not> path_exists ev (doc_path (doc_entries data ! i) s)"
  shows "snd (load_book ev reply file_name (Inr data) st) = None"
    and "load_book ev reply file_name (Inr data) st =
      load_book ev reply file_name
        (Inr (data\<lparr>spreads_key :=
           Some ((doc_entries data)[i := clear_doc_path s (doc_entries data ! i)])\<rparr>)) st"
    and "i < length (spreads (loaded (fst (load_book ev reply file_name (Inr data) st)))) \<Longrightarrow>
        image_path (page_at (loaded (fst (load_book ev reply file_name (Inr data) st))) i s) = []"
    and "size_fits ev (doc_page_width data) \<Longrightarrow>
        \<forall>j \<le> i. \<not> entry_raises ev (doc_page_width data) (doc_entries data ! j) \<Longrightarrow>
        i < length (spreads (loaded (fst (load_book ev reply file_name (Inr data) st))))"
proof -
  let ?ds = "doc_entries data"
  let ?P = "\<lambda>d. \<not> entry_raises ev (doc_page_width data) d"
  let ?after = "loaded (fst (load_book ev reply file_name (Inr data) st))"
  have after: "?after = fst (load_book_body ev (Inr data) st)"
    using load_book_proceeds [OF chosen confirmed] by simp
  have paths: "image_paths ?after = map (loaded_paths ev) (takeWhile ?P ?ds)"
    by (simp add: after load_book_body_result)
  show "snd (load_book ev reply file_name (Inr data) st) = None"
    by (simp add: load_book_def split: prod.splits option.splits)
  show "load_book ev reply file_name (Inr data) st =
      load_book ev reply file_name
        (Inr (data\<lparr>spreads_key := Some (?ds[i := clear_doc_path s (?ds ! i)])\<rparr>)) st"
  proof -
    let ?data' = "data\<lparr>spreads_key := Some (?ds[i := clear_doc_path s (?ds ! i)])\<rparr>"
    have "doc_entries ?data' = ?ds[i := clear_doc_path s (?ds ! i)]"
      and "doc_page_width ?data' = doc_page_width data"
      and "doc_page_number_start ?data' = doc_page_number_start data"
      and "doc_show_page_numbers ?data' = doc_show_page_numbers data"
      by (simp_all add: doc_entries_def doc_page_width_def doc_page_number_start_def
          doc_show_page_numbers_def doc_settings_def)
    then have "load_book_body ev (Inr ?data') st = load_book_body ev (Inr data) st"
      by (simp add: load_book_body_eq load_spreads_clear [OF i nonempty missing])
    then show ?thesis by (simp add: load_book_def)
  qed
  {
    assume len: "i < length (spreads ?after)"
    then have "i < length (takeWhile ?P ?ds)"
      using paths by (metis length_image_paths length_map)
    then have "image_paths ?after ! i = loaded_paths ev (?ds ! i)"
      by (simp add: paths takeWhile_nth)
    with nonempty missing have "(case s of LeftSlot \<Rightarrow> fst (image_paths ?after ! i)
        | RightSlot \<Rightarrow> snd (image_paths ?after ! i)) = []"
      by (cases s) (simp_all add: loaded_paths_def loaded_path_def)
    then show "image_path (page_at ?after i s) = []"
      by (simp add: image_path_page_at [OF len])
  }
  {
    assume "\<forall>j \<le> i. ?P (?ds ! j)"
    with i have "i < length (takeWhile ?P ?ds)" by (rule length_takeWhile_gt)
    then show "i < length (spreads ?after)"
      using paths by (metis length_image_paths length_map)
  }
qed

text \<open>
  With \<^verbatim>\<open>lost.png\<close> missing and every other file in order, the entry of \<open>lost_doc\<close>
  loads into one spread whose left page is empty and whose right page shows
  \<^verbatim>\<open>a.png\<close>, and no box is shown.
\<close>

lemma load_book_skips_lost_image:
  "load_shown (fst (load_book (missing_env ''lost.png'') Yes ''f'' (Inr lost_doc) book_abcd)) = None
   \<and> image_paths (loaded (fst (load_book (missing_env ''lost.png'') Yes ''f''
        (Inr lost_doc) book_abcd))) = [([], ''a.png'')]"
  by (simp add: lost_doc_def missing_env_def image_paths_def spread_paths_def
      load_eval_defs eval_defs)

text \<open>
  C5. The claim: when \<^verbatim>\<open>load_book\<close> meets an entry whose image path is not empty but
  names a file that does not exist, it still creates the spread, leaves that page
  slot empty, raises no error and shows no message for that entry. \<^verbatim>\<open>load_book\<close>
  builds the spread of an entry, loads its two images and appends the spread last.
  An image file that exists but does not decode makes \<^verbatim>\<open>load_image\<close> raise
  \<^verbatim>\<open>ZeroDivisionError\<close> before the append. Here the only entry names the missing
  \<^verbatim>\<open>lost.png\<close> for its left page and \<^verbatim>\<open>b.png\<close>, which exists but does not decode, for
  its right page: the left page is skipped, the right page raises, the load ends
  with an error box and the book holds no spread for the entry.
\<close>

theorem load_book_drops_entry_with_missing_image:
  "\<not> path_exists (missing_broken_env ''lost.png'' ''b.png'') ''lost.png''
   \<and> path_exists (missing_broken_env ''lost.png'' ''b.png'') ''b.png''
   \<and> doc_entries lost_and_broken_doc =
       [\<lparr>left_page_key = Some \<lparr>image_path_key = Some ''lost.png''\<rparr>,
         right_page_key = Some \<lparr>image_path_key = Some ''b.png''\<rparr>\<rparr>]
   \<and> load_book (missing_broken_env ''lost.png'' ''b.png'') Yes ''f'' (Inr lost_and_broken_doc)
         book_abcd =
       (\<lparr>loaded = book_abcd\<lparr>spreads := [], next_id := 6\<rparr>,
         load_shown = Some (LoadErrorBox ZeroDivisionError)\<rparr>, None)"
  by (simp add: lost_and_broken_doc_def missing_broken_env_def doc_entries_def
      load_eval_defs eval_defs)

section \<open>Saving and loading again\<close>

text \<open>
  C2. The claim: saving a book and loading the saved document restores the three
  settings and the image paths, provided every non-empty saved path names an
  existing file. \<^verbatim>\<open>load_book\<close> guards \<^verbatim>\<open>load_image\<close> with \<^verbatim>\<open>os.path.exists\<close> only. For
  a file that exists but does not decode, \<^verbatim>\<open>QPixmap\<close> gives the null pixmap and
  \<^verbatim>\<open>load_image\<close> raises \<^verbatim>\<open>ZeroDivisionError\<close>; the load stops there with an error box.
  Here all four image files of the saved book exist, \<^verbatim>\<open>b.png\<close> no longer decodes,
  and the load ends with no spread at all.
\<close>

theorem save_then_load_fails_on_undecodable_image:
  "path_exists (broken_env ''b.png'') ''a.png'' \<and> path_exists (broken_env ''b.png'') ''b.png''
   \<and> path_exists (broken_env ''b.png'') ''c.png'' \<and> path_exists (broken_env ''b.png'') ''d.png''
   \<and> save_book ''x'' None book_abcd =
       (\<lparr>written = Some (''x.book.json'', book_data book_abcd), save_shown = None\<rparr>, None)
   \<and> load_book (broken_env ''b.png'') Yes ''x.book.json'' (Inr (book_data book_abcd)) book_abcd =
       (\<lparr>loaded = book_abcd\<lparr>spreads := [], next_id := 6\<rparr>,
         load_shown = Some (LoadErrorBox ZeroDivisionError)\<rparr>, None)"
  by (simp add: save_book_def suffix_to_prefix load_eval_defs eval_defs)


section \<open>Inserting a page\<close>

text \<open>
  An insertion on a page that is in no spread returns at once and leaves the book
  as it is (lemma \<open>insert_not_contained\<close>). On a page of the book, it makes the
  spreads list one longer exactly when it returns without raising.
\<close>

lemma insert_new_page_length:
  assumes found: "find_spread_and_page st p = Some (i, sp)"
  shows "length (spreads (fst (insert_new_page_before ev p st))) =
      (if snd (insert_new_page_before ev p st) = None then Suc (length (spreads st))
       else length (spreads st))"
    and "length (spreads (fst (insert_new_page_after ev p st))) =
      (if snd (insert_new_page_after ev p st) = None then Suc (length (spreads st))
       else length (spreads st))"
proof -
  have "length (ids (fst (insert_new_page_before ev p st))) =
      (if snd (insert_new_page_before ev p st) = None then Suc (length (ids st))
       else length (ids st))"
    by (simp only: ids_insert_new_page_before [OF found] length_list_insert if_distrib [of length] cong: if_cong)
  then show "length (spreads (fst (insert_new_page_before ev p st))) =
      (if snd (insert_new_page_before ev p st) = None then Suc (length (spreads st))
       else length (spreads st))"
    by simp
  have "length (ids (fst (insert_new_page_after ev p st))) =
      (if snd (insert_new_page_after ev p st) = None then Suc (length (ids st))
       else length (ids st))"
    by (simp only: ids_insert_new_page_after [OF found] length_list_insert if_distrib [of length] cong: if_cong)
  then show "length (spreads (fst (insert_new_page_after ev p st))) =
      (if snd (insert_new_page_after ev p st) = None then Suc (length (spreads st))
       else length (spreads st))"
    by simp
qed

text \<open>
  C10. The claim: on a page contained in some spread, \<^verbatim>\<open>insert_new_page_before\<close> and
  \<^verbatim>\<open>insert_new_page_after\<close> make the spreads list exactly one longer. Both copy
  image paths into the new spread with \<^verbatim>\<open>load_image\<close>, which raises
  \<^verbatim>\<open>ZeroDivisionError\<close> when the file no longer decodes; the exception leaves the
  method before the new spread is spliced in. Here \<^verbatim>\<open>b.png\<close>, shown on the right
  page of the first spread, no longer decodes: inserting after the left page and
  inserting before the right page both raise and leave the list at two spreads.
\<close>

theorem insert_new_page_raises_on_undecodable_image:
  "find_spread_and_page book_abcd 0 = Some (0, mk_spread 0 1 ''a.png'' ''b.png'')
   \<and> insert_new_page_after (broken_env ''b.png'') 0 book_abcd =
       (book_abcd\<lparr>next_id := 6\<rparr>, Some ZeroDivisionError)
   \<and> find_spread_and_page book_abcd 1 = Some (0, mk_spread 0 1 ''a.png'' ''b.png'')
   \<and> insert_new_page_before (broken_env ''b.png'') 1 book_abcd =
       (book_abcd\<lparr>next_id := 6\<rparr>, Some ZeroDivisionError)
   \<and> length (spreads (book_abcd\<lparr>next_id := 6\<rparr>)) = length (spreads book_abcd)"
  by (simp add: insert_new_page_after_def insert_new_page_before_def eval_defs)

section \<open>Swapping with a neighbour\<close>

text \<open>
  When a swap returns without raising, the image paths of the book are those
  before with the paths of the two pages exchanged: a left page with the right
  page of its spread, a right page with the left page of the following spread, and
  symmetrically for the previous page; at the right page of the last spread (for
  next) and the left page of the first spread (for previous) nothing is exchanged.
  \<open>swap_paths_exchange\<close> says what \<open>swap_paths\<close> does to every slot, and
  \<open>swap_pages_raises\<close> when \<^verbatim>\<open>swap_pages\<close> raises.
\<close>

lemma swap_pages_paths:
  assumes "i1 < length (spreads st)" and "i2 < length (spreads st)"
    and ok: "snd (swap_pages ev i1 s1 i2 s2 st) = None"
  shows "image_paths (fst (swap_pages ev i1 s1 i2 s2 st)) =
      swap_paths i1 s1 i2 s2 (image_paths st)"
  using assms
  by (auto simp add: swap_pages_def op_simps swap_paths_def image_paths_set_path
      image_path_get_path split: if_splits)

lemma swap_with_next_page_paths:
  assumes found: "find_spread_and_page st p = Some (i, sp)"
    and ok: "snd (swap_with_next_page ev p st) = None"
  shows "image_paths (fst (swap_with_next_page ev p st)) =
      (if get_page_index sp p = 0 then swap_paths i LeftSlot i RightSlot (image_paths st)
       else if Suc i < length (spreads st) then
         swap_paths i RightSlot (Suc i) LeftSlot (image_paths st)
       else image_paths st)"
proof -
  have len: "i < length (spreads st)"
    using find_spread_and_page_Some [OF found] by simp
  consider (left) "get_page_index sp p = 0"
    | (inner) "get_page_index sp p = 1" "Suc i < length (spreads st)"
    | (last) "get_page_index sp p = 1" "\<not> Suc i < length (spreads st)"
    using get_page_index_found [OF found] by auto
  then show ?thesis
  proof cases
    case left
    with found ok have "snd (swap_pages ev i LeftSlot i RightSlot st) = None"
      by (simp add: swap_with_next_page_def Let_def snd_and_then split: if_splits)
    from swap_pages_paths [OF len len this] left found show ?thesis
      by (simp add: swap_with_next_page_def Let_def fst_and_then)
  next
    case inner
    with found ok have "snd (swap_pages ev i RightSlot (Suc i) LeftSlot st) = None"
      by (simp add: swap_with_next_page_def Let_def snd_and_then split: if_splits)
    from swap_pages_paths [OF len inner(2) this] inner found show ?thesis
      by (simp add: swap_with_next_page_def Let_def fst_and_then)
  next
    case last
    with found show ?thesis
      by (simp add: swap_with_next_page_def Let_def)
  qed
qed

lemma swap_with_prev_page_paths:
  assumes found: "find_spread_and_page st p = Some (i, sp)"
    and ok: "snd (swap_with_prev_page ev p st) = None"
  shows "image_paths (fst (swap_with_prev_page ev p st)) =
      (if get_page_index sp p = 0 then
         (if 0 < i then swap_paths i LeftSlot (i - 1) RightSlot (image_paths st)
          else image_paths st)
       else swap_paths i RightSlot i LeftSlot (image_paths st))"
proof -
  have len: "i < length (spreads st)"
    using find_spread_and_page_Some [OF found] by simp
  consider (inner) "get_page_index sp p = 0" "0 < i"
    | (first) "get_page_index sp p = 0" "i = 0"
    | (right) "get_page_index sp p = 1"
    using get_page_index_found [OF found] by auto
  then show ?thesis
  proof cases
    case inner
    with len have len': "i - 1 < length (spreads st)" by simp
    from inner found ok have "snd (swap_pages ev i LeftSlot (i - 1) RightSlot st) = None"
      by (simp add: swap_with_prev_page_def Let_def snd_and_then split: if_splits)
    from swap_pages_paths [OF len len' this] inner found show ?thesis
      by (simp add: swap_with_prev_page_def Let_def fst_and_then)
  next
    case first
    with found show ?thesis
      by (simp add: swap_with_prev_page_def Let_def)
  next
    case right
    with found ok have "snd (swap_pages ev i RightSlot i LeftSlot st) = None"
      by (simp add: swap_with_prev_page_def Let_def snd_and_then split: if_splits)
    from swap_pages_paths [OF len len this] right found show ?thesis
      by (simp add: swap_with_prev_page_def Let_def fst_and_then)
  qed
qed

lemma swap_pages_raises:
  "snd (swap_pages ev i1 s1 i2 s2 st) =
     (if load_raises ev (image_path (page_at st i2 s2)) (page_at st i1 s1)
         \<or> load_raises ev (image_path (page_at st i1 s1)) (page_at st i2 s2)
      then Some ZeroDivisionError else None)"
  by (simp add: swap_pages_def op_simps)

text \<open>
  C7. The claim: \<^verbatim>\<open>swap_with_next_page\<close> on a left page exchanges its image path
  with the one of the right page of the same spread, and the paths of all other
  pages are unchanged. \<^verbatim>\<open>swap_pages\<close> writes the second page's path into the first
  page with \<^verbatim>\<open>load_image\<close>, which stores the path and then raises
  \<^verbatim>\<open>ZeroDivisionError\<close> when the file no longer decodes. Here \<^verbatim>\<open>b.png\<close> no longer
  decodes: the swap raises after the left page took the path \<^verbatim>\<open>b.png\<close> and before
  the right page took \<^verbatim>\<open>a.png\<close>, so both pages of the first spread hold \<^verbatim>\<open>b.png\<close>.
\<close>

theorem swap_with_next_page_raises_on_undecodable_image:
  "find_spread_and_page book_abcd 0 = Some (0, mk_spread 0 1 ''a.png'' ''b.png'')
   \<and> image_paths book_abcd = [(''a.png'', ''b.png''), (''c.png'', ''d.png'')]
   \<and> snd (swap_with_next_page (broken_env ''b.png'') 0 book_abcd) = Some ZeroDivisionError
   \<and> image_paths (fst (swap_with_next_page (broken_env ''b.png'') 0 book_abcd)) =
       [(''b.png'', ''b.png''), (''c.png'', ''d.png'')]"
  by (simp add: swap_with_next_page_def swap_pages_def image_paths_def spread_paths_def eval_defs)

section \<open>Deleting a page\<close>

text \<open>
  A declined deletion changes nothing. When a confirmed deletion returns without
  raising, the paths of the spread are shifted (the right page's path moves to the
  left slot when a left page with a preceding spread is deleted; otherwise only
  the deleted slot is cleared), and the spread is removed exactly when both its
  paths are then empty and the book has more than one spread.
\<close>

lemma delete_page_declined: "delete_page ev No p st = (st, None)"
  by (simp add: delete_page_def split: option.splits)

lemma delete_page_paths:
  assumes found: "find_spread_and_page st p = Some (i, sp)"
    and ok: "snd (delete_page ev Yes p st) = None"
  shows "image_paths (fst (delete_page ev Yes p st)) =
      (let xs = image_paths st;
           ys = (if get_page_index sp p = 0 then
                   (if 0 < i then
                      set_path i RightSlot [] (set_path i LeftSlot (get_path xs i RightSlot) xs)
                    else set_path i LeftSlot [] xs)
                 else set_path i RightSlot [] xs)
       in if fst (ys ! i) = [] \<and> snd (ys ! i) = [] \<and> 1 < length ys then list_pop i ys
          else ys)"
proof -
  have len: "i < length (spreads st)" and sp: "sp = spreads st ! i"
    using find_spread_and_page_Some [OF found] by simp_all
  have right: "snd (spread_paths sp) = get_path (image_paths st) i RightSlot"
    using len by (simp add: sp get_path_def image_paths_def)
  note simps = delete_page_def op_simps image_paths_set_path map_list_pop
    image_path_left_right spread_paths_nth right
  consider (inner) "get_page_index sp p = 0" "0 < i"
    | (first) "get_page_index sp p = 0" "i = 0"
    | (right) "get_page_index sp p = 1"
    using get_page_index_found [OF found] by auto
  then show ?thesis
  proof cases
    case inner
    with found ok len show ?thesis
      by (simp add: simps flip: image_paths_def split: if_splits)
  next
    case first
    with found ok len show ?thesis
      by (simp add: simps flip: image_paths_def split: if_splits)
  next
    case right
    with found ok len show ?thesis
      by (simp add: simps flip: image_paths_def split: if_splits)
  qed
qed

text \<open>
  C6. The claim: deleting a left page that has a preceding spread moves the right
  page's content to the left slot, and the spread is removed exactly when both
  slots are empty afterwards and the book has more than one spread. The move is
  \<^verbatim>\<open>spread.left_page.load_image(spread.right_page.image_path)\<close> followed by clearing
  the right page; \<^verbatim>\<open>load_image\<close> stores the path and then raises
  \<^verbatim>\<open>ZeroDivisionError\<close> when the file no longer decodes. Here \<^verbatim>\<open>d.png\<close> no longer
  decodes: deleting the left page of the second spread raises after the left slot
  took the path \<^verbatim>\<open>d.png\<close> and before the right slot was cleared.
\<close>

theorem delete_page_raises_on_undecodable_image:
  "find_spread_and_page book_abcd 2 = Some (1, mk_spread 2 3 ''c.png'' ''d.png'')
   \<and> image_paths book_abcd = [(''a.png'', ''b.png''), (''c.png'', ''d.png'')]
   \<and> snd (delete_page (broken_env ''d.png'') Yes 2 book_abcd) = Some ZeroDivisionError
   \<and> image_paths (fst (delete_page (broken_env ''d.png'') Yes 2 book_abcd)) =
       [(''a.png'', ''b.png''), (''d.png'', ''d.png'')]"
  by (simp add: delete_page_def image_paths_def spread_paths_def eval_defs)

end
